theory Spec2Isabelle
  imports Complex_Main "HOL-Library.Log_Nat"
begin

section \<open>Python floats\<close>

text \<open>
  The prices and every accumulated cost are Python \<open>float\<close>s, that is IEEE-754 binary64
  values. A finite double is the rational number it denotes; the two infinities and NaN are
  separate constructors. The two zeros are identified: they compare equal in Python and the
  program never divides by a float or inspects a sign.

  Every arithmetic operation computes the exact rational result and rounds it to the nearest
  double, ties to the even significand (\<open>round_double\<close>). The spacing of the doubles
  around \<open>x\<close> is \<open>2 ^ ulp_exp x\<close>: 53 significant bits in the normal range, the fixed
  spacing \<open>2 ^ - 1074\<close> in the subnormal range. A rounded result of magnitude
  \<open>2 ^ 1024\<close> or more is an infinity.
\<close>

datatype pyfloat = Fin rat | PInf | NInf | NaN

definition round_half_even :: "rat \<Rightarrow> int" where
  "round_half_even x =
     (let f = \<lfloor>x\<rfloor>; d = x - of_int f
      in if d < 1 / 2 then f
         else if 1 / 2 < d then f + 1
         else if even f then f else f + 1)"

text \<open>\<open>ilog2 x\<close> is the integer part of the binary logarithm of a positive rational.\<close>

definition ilog2 :: "rat \<Rightarrow> int" where
  "ilog2 x =
     (case quotient_of x of (a, b) \<Rightarrow>
        let d = bitlen a - bitlen b
        in if power_int 2 d \<le> x then d else d - 1)"

definition ulp_exp :: "rat \<Rightarrow> int" where
  "ulp_exp x = max (ilog2 \<bar>x\<bar> - 52) (- 1074)"

text \<open>Rounding with an unbounded exponent range, then the overflow to an infinity.\<close>

definition round_unbounded :: "rat \<Rightarrow> rat" where
  "round_unbounded x =
     (let q = ulp_exp x
      in of_int (round_half_even (x / power_int 2 q)) * power_int 2 q)"

definition round_double :: "rat \<Rightarrow> pyfloat" where
  "round_double x =
     (let r = round_unbounded x
      in if 2 ^ 1024 \<le> r then PInf
         else if r \<le> - (2 ^ 1024) then NInf
         else Fin r)"

text \<open>A float literal of the source denotes the double nearest to its decimal value.\<close>

definition float_lit :: "rat \<Rightarrow> pyfloat" where
  "float_lit x = round_double x"


fun fadd :: "pyfloat \<Rightarrow> pyfloat \<Rightarrow> pyfloat" where
  "fadd NaN _ = NaN"
| "fadd _ NaN = NaN"
| "fadd PInf NInf = NaN"
| "fadd NInf PInf = NaN"
| "fadd PInf _ = PInf"
| "fadd _ PInf = PInf"
| "fadd NInf _ = NInf"
| "fadd _ NInf = NInf"
| "fadd (Fin x) (Fin y) = round_double (x + y)"

fun fmul :: "pyfloat \<Rightarrow> pyfloat \<Rightarrow> pyfloat" where
  "fmul NaN _ = NaN"
| "fmul _ NaN = NaN"
| "fmul PInf (Fin y) = (if y = 0 then NaN else if 0 < y then PInf else NInf)"
| "fmul NInf (Fin y) = (if y = 0 then NaN else if 0 < y then NInf else PInf)"
| "fmul (Fin x) PInf = (if x = 0 then NaN else if 0 < x then PInf else NInf)"
| "fmul (Fin x) NInf = (if x = 0 then NaN else if 0 < x then NInf else PInf)"
| "fmul PInf PInf = PInf"
| "fmul PInf NInf = NInf"
| "fmul NInf PInf = NInf"
| "fmul NInf NInf = PInf"
| "fmul (Fin x) (Fin y) = round_double (x * y)"

text \<open>Python's comparison \<open><=\<close> on floats: every comparison with NaN is false.\<close>

fun fle :: "pyfloat \<Rightarrow> pyfloat \<Rightarrow> bool" where
  "fle NaN _ = False"
| "fle _ NaN = False"
| "fle NInf _ = True"
| "fle _ PInf = True"
| "fle PInf _ = False"
| "fle _ NInf = False"
| "fle (Fin x) (Fin y) = (x \<le> y)"

section \<open>Errors\<close>

datatype error = ValueError string | OverflowError | ZeroDivisionError | OSError

text \<open>
  True division of two Python ints, \<open>a / b\<close>: the correctly rounded quotient, and
  OverflowError when that is too large for a float.
\<close>

definition int_truediv :: "int \<Rightarrow> int \<Rightarrow> error + pyfloat" where
  "int_truediv a b =
     (if b = 0 then Inl ZeroDivisionError
      else case round_double (of_int a / of_int b) of
             Fin r \<Rightarrow> Inr (Fin r)
           | _ \<Rightarrow> Inl OverflowError)"

section \<open>model_config.py\<close>

record ModelPricing =
  input_price :: pyfloat
  cached_input_price :: pyfloat
  output_price :: pyfloat
  description :: string

definition MODEL_PRICING :: "(string \<times> ModelPricing) list" where
  "MODEL_PRICING =
     [(''gpt-4.1'',
        \<lparr>input_price = float_lit 2, cached_input_price = float_lit (1 / 2),
         output_price = float_lit 8,
         description = ''Smartest model for complex tasks''\<rparr>),
      (''gpt-4.1-mini'',
        \<lparr>input_price = float_lit (40 / 100), cached_input_price = float_lit (10 / 100),
         output_price = float_lit (160 / 100),
         description = ''Affordable model balancing speed and intelligence''\<rparr>),
      (''gpt-4.1-nano'',
        \<lparr>input_price = float_lit (100 / 1000), cached_input_price = float_lit (25 / 1000),
         output_price = float_lit (400 / 1000),
         description = ''Fastest, most cost-effective model for low-latency tasks''\<rparr>),
      (''o3'',
        \<lparr>input_price = float_lit 10, cached_input_price = float_lit (250 / 100),
         output_price = float_lit 40,
         description = ''Most powerful reasoning model with leading performance on coding, math, science, and vision''\<rparr>),
      (''o4-mini'',
        \<lparr>input_price = float_lit (1100 / 1000), cached_input_price = float_lit (275 / 1000),
         output_price = float_lit (4400 / 1000),
         description = ''Faster, cost-efficient reasoning model delivering strong performance on math, coding and vision''\<rparr>)]"

definition get_model_info :: "string \<Rightarrow> error + ModelPricing" where
  "get_model_info model_name =
     (case map_of MODEL_PRICING model_name of
        None \<Rightarrow> Inl (ValueError (''Unknown model: '' @ model_name))
      | Some p \<Rightarrow> Inr p)"

definition list_available_models :: "(string \<times> string) list" where
  "list_available_models = map (\<lambda>(name, pricing). (name, description pricing)) MODEL_PRICING"

section \<open>cost_monitor.py\<close>

definition calculate_cost :: "ModelPricing \<Rightarrow> int \<Rightarrow> int \<Rightarrow> bool \<Rightarrow> error + pyfloat" where
  "calculate_cost model_info input_tokens output_tokens is_cached =
     (case int_truediv input_tokens 1000000 of
        Inl e \<Rightarrow> Inl e
      | Inr qi \<Rightarrow>
          (let input_cost =
                 fmul qi (if is_cached then cached_input_price model_info
                          else input_price model_info)
           in (case int_truediv output_tokens 1000000 of
                 Inl e \<Rightarrow> Inl e
               | Inr qo \<Rightarrow>
                   (let output_cost = fmul qo (output_price model_info)
                    in Inr (fadd input_cost output_cost)))))"

text \<open>
  The objects of the program live in a store. A \<open>CostMonitor\<close> holds its running total as a
  float (an immutable value) and its two dictionaries by reference: \<open>cost_by_model\<close> and
  \<open>cost_by_file\<close> are addresses into \<open>heap\<close>. The log file of the monitor is \<open>audit\<close>, the
  list of the lines the logger has written to it; the request line is kept as its fields,
  not as formatted text. \<open>files\<close> is the rest of the file system: it maps a path to the text
  stored there.
\<close>

type_synonym addr = nat

type_synonym pydict = "string \<rightharpoonup> pyfloat"

datatype audit_line = RequestLine string string int int pyfloat | SavedLine string

text \<open>The dictionary \<open>get_summary\<close> returns: two of its values are references.\<close>

record summary =
  sum_total_cost :: pyfloat
  sum_cost_by_model :: addr
  sum_cost_by_file :: addr
  sum_timestamp :: string

text \<open>
  The value of a summary with its references followed: a dictionary of a float, two
  dictionaries of floats and a string.
\<close>

record summary_doc =
  doc_total_cost :: pyfloat
  doc_cost_by_model :: pydict
  doc_cost_by_file :: pydict
  doc_timestamp :: string

record state =
  total_cost :: pyfloat
  cost_by_model :: addr
  cost_by_file :: addr
  heap :: "addr \<Rightarrow> pydict"
  files :: "string \<rightharpoonup> string"
  audit :: "audit_line list"

text \<open>
  \<open>CostMonitor()\<close>: the total is \<open>0.0\<close> and the two dictionaries are two new, empty
  objects.
\<close>

definition CostMonitor_init :: "(string \<rightharpoonup> string) \<Rightarrow> state" where
  "CostMonitor_init fs =
     \<lparr>total_cost = Fin 0, cost_by_model = 0, cost_by_file = 1,
      heap = (\<lambda>_. Map.empty), files = fs, audit = []\<rparr>"

text \<open>\<open>d.get(k, default)\<close> and \<open>d[k] = v\<close> on the dictionary object at an address.\<close>

definition dict_get :: "pydict \<Rightarrow> string \<Rightarrow> pyfloat \<Rightarrow> pyfloat" where
  "dict_get d k dflt = (case d k of None \<Rightarrow> dflt | Some v \<Rightarrow> v)"

definition dict_set :: "addr \<Rightarrow> string \<Rightarrow> pyfloat \<Rightarrow> (addr \<Rightarrow> pydict) \<Rightarrow> (addr \<Rightarrow> pydict)" where
  "dict_set a k v h = h(a := (h a)(k \<mapsto> v))"

text \<open>
  \<open>log_request\<close> returns the cost or the exception raised, and the state it leaves. The
  default \<open>0\<close> of \<open>get\<close> is the int zero, which the addition converts to \<open>0.0\<close>.
\<close>

definition log_request ::
  "string \<Rightarrow> string \<Rightarrow> int \<Rightarrow> int \<Rightarrow> bool \<Rightarrow> ModelPricing option \<Rightarrow> state
     \<Rightarrow> (error + pyfloat) \<times> state" where
  "log_request model_name file_path input_tokens output_tokens is_cached model_info s =
     (case (case model_info of None \<Rightarrow> get_model_info model_name | Some p \<Rightarrow> Inr p) of
        Inl e \<Rightarrow> (Inl e, s)
      | Inr info \<Rightarrow>
          (case calculate_cost info input_tokens output_tokens is_cached of
             Inl e \<Rightarrow> (Inl e, s)
           | Inr cost \<Rightarrow>
               (let s1 = s\<lparr>total_cost := fadd (total_cost s) cost\<rparr>;
                    s2 = s1\<lparr>heap := dict_set (cost_by_model s1) model_name
                            (fadd (dict_get (heap s1 (cost_by_model s1)) model_name (Fin 0)) cost)
                            (heap s1)\<rparr>;
                    s3 = s2\<lparr>heap := dict_set (cost_by_file s2) file_path
                            (fadd (dict_get (heap s2 (cost_by_file s2)) file_path (Fin 0)) cost)
                            (heap s2)\<rparr>;
                    s4 = s3\<lparr>audit := audit s3 @
                            [RequestLine model_name file_path input_tokens output_tokens cost]\<rparr>
                in (Inr cost, s4))))"

text \<open>
  \<open>get_summary\<close> reads the clock; \<open>now\<close> is the text \<open>datetime.now().isoformat()\<close>
  gives at that call.
\<close>

definition get_summary :: "string \<Rightarrow> state \<Rightarrow> summary" where
  "get_summary now s =
     \<lparr>sum_total_cost = total_cost s, sum_cost_by_model = cost_by_model s,
      sum_cost_by_file = cost_by_file s, sum_timestamp = now\<rparr>"

text \<open>
  The value a summary denotes in a given store: its references followed. This is what a
  reader of the summary sees at that moment, and what \<open>json.dump\<close> is given to write.
\<close>

definition summary_value :: "(addr \<Rightarrow> pydict) \<Rightarrow> summary \<Rightarrow> summary_doc" where
  "summary_value h sm =
     \<lparr>doc_total_cost = sum_total_cost sm, doc_cost_by_model = h (sum_cost_by_model sm),
      doc_cost_by_file = h (sum_cost_by_file sm), doc_timestamp = sum_timestamp sm\<rparr>"



text \<open>A request, and a batch of requests logged one after the other.\<close>

record request =
  req_model :: string
  req_file :: string
  req_input_tokens :: int
  req_output_tokens :: int
  req_cached :: bool
  req_info :: "ModelPricing option"

definition log_one :: "request \<Rightarrow> state \<Rightarrow> (error + pyfloat) \<times> state" where
  "log_one r s =
     log_request (req_model r) (req_file r) (req_input_tokens r) (req_output_tokens r)
       (req_cached r) (req_info r) s"

fun log_requests :: "request list \<Rightarrow> state \<Rightarrow> (error + pyfloat) list \<times> state" where
  "log_requests [] s = ([], s)"
| "log_requests (r # rs) s =
     (case log_one r s of
        (res, s1) \<Rightarrow> (case log_requests rs s1 of (ress, s2) \<Rightarrow> (res # ress, s2)))"

section \<open>Vocabulary of the properties\<close>

text \<open>
  The cost of the specification, in exact arithmetic: tokens per million times the price
  of the tier, for the input and for the output.
\<close>

definition exact_cost :: "rat \<Rightarrow> rat \<Rightarrow> rat \<Rightarrow> int \<Rightarrow> int \<Rightarrow> bool \<Rightarrow> rat" where
  "exact_cost pin pcached pout input_tokens output_tokens is_cached =
     of_int input_tokens / 1000000 * (if is_cached then pcached else pin) +
     of_int output_tokens / 1000000 * pout"

text \<open>A price that is a finite, non-negative double; a price record of such prices.\<close>

fun price_ok :: "pyfloat \<Rightarrow> bool" where
  "price_ok (Fin x) = (0 \<le> x \<and> round_double x = Fin x)"
| "price_ok _ = False"

definition pricing_ok :: "ModelPricing \<Rightarrow> bool" where
  "pricing_ok p =
     (price_ok (input_price p) \<and> price_ok (cached_input_price p) \<and> price_ok (output_price p))"











section \<open>Rounding to a double\<close>

lemma powi2_less_iff: "power_int (2::rat) m < power_int 2 n \<longleftrightarrow> m < n"
proof
  assume "power_int (2::rat) m < power_int 2 n"
  show "m < n"
  proof (rule ccontr)
    assume "\<not> m < n"
    then have "n \<le> m" by simp
    then have "power_int (2::rat) n \<le> power_int 2 m" by (rule power_int_increasing) simp
    with \<open>power_int (2::rat) m < power_int 2 n\<close> show False by simp
  qed
next
  assume "m < n"
  then show "power_int (2::rat) m < power_int 2 n" by (rule power_int_strict_increasing) simp
qed

lemma powi2_le_iff: "power_int (2::rat) m \<le> power_int 2 n \<longleftrightarrow> m \<le> n"
  using powi2_less_iff [of n m] by (simp add: not_less [symmetric])

lemma bitlen_powi_bounds:
  assumes "0 < a"
  shows "power_int 2 (bitlen a - 1) \<le> (of_int a :: rat)" and "(of_int a :: rat) < power_int 2 (bitlen a)"
proof -
  from bitlen_bounds [OF assms]
  have 1: "2 ^ nat (bitlen a - 1) \<le> a" and 2: "a < 2 ^ nat (bitlen a)" by simp_all
  have pos: "1 \<le> bitlen a" using assms bitlen_eq_zero_iff [of a] bitlen_nonneg [of a] by linarith
  have "(of_int (2 ^ nat (bitlen a - 1)) :: rat) \<le> of_int a" using 1 by (simp only: of_int_le_iff)
  then show "power_int 2 (bitlen a - 1) \<le> (of_int a :: rat)"
    using pos by (simp add: power_int_nonneg_exp)
  have "(of_int a :: rat) < of_int (2 ^ nat (bitlen a))" using 2 by (simp only: of_int_less_iff)
  then show "(of_int a :: rat) < power_int 2 (bitlen a)"
    using pos by (simp add: power_int_nonneg_exp)
qed

lemma ilog2_bounds:
  assumes "0 < x"
  shows "power_int 2 (ilog2 x) \<le> x" and "x < power_int 2 (ilog2 x + 1)"
proof -
  obtain a b where q: "quotient_of x = (a, b)" by (cases "quotient_of x")
  have b: "0 < b" using q by (rule quotient_of_denom_pos)
  have x: "x = of_int a / of_int b" using q by (rule quotient_of_div)
  have a: "0 < a" using assms b x by (simp add: zero_less_divide_iff)
  define d where "d = bitlen a - bitlen b"
  have rb: "0 < (of_int b :: rat)" using b by simp
  have lo: "power_int 2 (d - 1) < x"
  proof -
    have "power_int 2 (d - 1) * (of_int b :: rat) < power_int 2 (d - 1) * power_int 2 (bitlen b)"
      using bitlen_powi_bounds(2) [OF b] by (simp add: zero_less_power_int)
    also have "\<dots> = power_int 2 (bitlen a - 1)"
      by (simp add: d_def power_int_add [symmetric])
    also have "\<dots> \<le> of_int a" by (rule bitlen_powi_bounds(1) [OF a])
    finally show ?thesis using rb by (simp add: x pos_less_divide_eq)
  qed
  have hi: "x < power_int 2 (d + 1)"
  proof -
    have "(of_int a :: rat) < power_int 2 (bitlen a)" by (rule bitlen_powi_bounds(2) [OF a])
    also have "\<dots> = power_int 2 (d + 1) * power_int 2 (bitlen b - 1)"
      by (simp add: d_def power_int_add [symmetric])
    also have "\<dots> \<le> power_int 2 (d + 1) * of_int b"
      using bitlen_powi_bounds(1) [OF b] by (simp add: zero_less_power_int)
    finally show ?thesis using rb by (simp add: x pos_divide_less_eq)
  qed
  have il: "ilog2 x = (if power_int 2 d \<le> x then d else d - 1)"
    by (simp add: ilog2_def q d_def Let_def)
  show "power_int 2 (ilog2 x) \<le> x" using lo by (simp add: il)
  show "x < power_int 2 (ilog2 x + 1)" using hi by (simp add: il)
qed

lemma ilog2_unique:
  assumes "power_int 2 e \<le> x" and "x < power_int 2 (e + 1)"
  shows "ilog2 x = e"
proof -
  have "0 < power_int (2::rat) e" by simp
  then have pos: "0 < x" using assms(1) by linarith
  note b = ilog2_bounds [OF pos]
  have "power_int (2::rat) e < power_int 2 (ilog2 x + 1)" using assms(1) b(2) by simp
  then have 1: "e < ilog2 x + 1" by (simp add: powi2_less_iff)
  have "power_int (2::rat) (ilog2 x) < power_int 2 (e + 1)" using assms(2) b(1) by simp
  then have 2: "ilog2 x < e + 1" by (simp add: powi2_less_iff)
  from 1 2 show ?thesis by simp
qed


lemma round_half_even_of_int: "round_half_even (of_int n) = n"
  by (simp add: round_half_even_def)

lemma round_half_even_bounds:
  shows "\<lfloor>x\<rfloor> \<le> round_half_even x" and "round_half_even x \<le> \<lfloor>x\<rfloor> + 1"
  by (simp_all add: round_half_even_def Let_def power_int_minus)

lemma round_half_even_mono:
  assumes "x \<le> y"
  shows "round_half_even x \<le> round_half_even y"
proof (cases "\<lfloor>x\<rfloor> = \<lfloor>y\<rfloor>")
  case True
  then show ?thesis using assms by (auto simp: round_half_even_def Let_def)
next
  case False
  then have "\<lfloor>x\<rfloor> + 1 \<le> \<lfloor>y\<rfloor>" using floor_mono [OF assms] by linarith
  then show ?thesis
    using round_half_even_bounds(2) [of x] round_half_even_bounds(1) [of y] by linarith
qed

lemma round_half_even_error: "\<bar>of_int (round_half_even x) - x\<bar> \<le> 1 / 2"
proof -
  have "of_int \<lfloor>x\<rfloor> \<le> x" and "x < of_int \<lfloor>x\<rfloor> + 1" by linarith+
  then show ?thesis by (auto simp: round_half_even_def Let_def abs_le_iff)
qed

lemma ulp_exp_eval:
  assumes "power_int 2 e \<le> \<bar>x\<bar>" and "\<bar>x\<bar> < power_int 2 (e + 1)"
  shows "ulp_exp x = max (e - 52) (- 1074)"
  by (simp add: ulp_exp_def ilog2_unique [OF assms])

lemma round_unbounded_eval:
  assumes "power_int 2 e \<le> \<bar>x\<bar>" and "\<bar>x\<bar> < power_int 2 (e + 1)"
  shows "round_unbounded x =
     (let q = max (e - 52) (- 1074)
      in of_int (round_half_even (x / power_int 2 q)) * power_int 2 q)"
  by (simp add: round_unbounded_def ulp_exp_eval [OF assms])

lemma round_double_eval:
  assumes "power_int 2 e \<le> \<bar>x\<bar>" and "\<bar>x\<bar> < power_int 2 (e + 1)"
  shows "round_double x =
     (let q = max (e - 52) (- 1074);
          r = of_int (round_half_even (x / power_int 2 q)) * power_int 2 q
      in if 2 ^ 1024 \<le> r then PInf
         else if r \<le> - (2 ^ 1024) then NInf
         else Fin r)"
  by (simp add: round_double_def round_unbounded_eval [OF assms] Let_def)

lemma round_half_even_0: "round_half_even 0 = 0"
  by (simp add: round_half_even_def)

lemma round_unbounded_0: "round_unbounded 0 = 0"
  by (simp add: round_unbounded_def round_half_even_0)

lemma round_double_0: "round_double 0 = Fin 0"
  by (simp add: round_double_def round_unbounded_0)

lemma floor_rat_numeral_divide:
  "\<lfloor>numeral a / numeral b :: rat\<rfloor> = numeral a div numeral b"
  using floor_divide_of_int_eq [where ?'a = rat, of "numeral a" "numeral b"] by simp

lemma floor_rat_neg_numeral_divide:
  "\<lfloor>- (numeral a / numeral b) :: rat\<rfloor> = - numeral a div numeral b"
  using floor_divide_of_int_eq [where ?'a = rat, of "- numeral a" "numeral b"] by simp

lemmas rd_eval = round_half_even_def Let_def floor_rat_numeral_divide floor_rat_neg_numeral_divide

subsection \<open>Order, fixed points and accuracy of rounding\<close>

lemma round_half_even_nonneg: "0 \<le> x \<Longrightarrow> 0 \<le> round_half_even x"
  using round_half_even_mono [of 0 x] by (simp add: round_half_even_0)

lemma round_half_even_powi:
  assumes "0 \<le> k"
  shows "round_half_even (power_int 2 k) = 2 ^ nat k"
proof -
  have "power_int (2::rat) k = of_int (2 ^ nat k)"
    using assms by (simp add: power_int_nonneg_exp)
  then show ?thesis by (simp only: round_half_even_of_int)
qed

lemma ilog2_mono:
  assumes "0 < x" and "x \<le> y"
  shows "ilog2 x \<le> ilog2 y"
proof -
  have "0 < y" using assms by simp
  have "power_int 2 (ilog2 x) \<le> x" by (rule ilog2_bounds(1) [OF assms(1)])
  also note assms(2)
  also have "y < power_int 2 (ilog2 y + 1)" by (rule ilog2_bounds(2) [OF \<open>0 < y\<close>])
  finally show ?thesis by (simp add: powi2_less_iff)
qed

lemma round_unbounded_nonneg:
  assumes "0 \<le> x"
  shows "0 \<le> round_unbounded x"
proof -
  have "0 \<le> x / power_int 2 (ulp_exp x)" using assms by simp
  then have "0 \<le> round_half_even (x / power_int 2 (ulp_exp x))"
    by (rule round_half_even_nonneg)
  then show ?thesis by (simp add: round_unbounded_def Let_def)
qed

lemma round_unbounded_error:
  "\<bar>round_unbounded x - x\<bar> \<le> power_int 2 (ulp_exp x) / 2"
proof -
  define s :: rat where "s = power_int 2 (ulp_exp x)"
  define m where "m = round_half_even (x / s)"
  have s: "0 < s" by (simp add: s_def)
  have "round_unbounded x - x = s * (of_int m - x / s)"
    using s by (simp add: round_unbounded_def Let_def s_def m_def algebra_simps)
  then have "\<bar>round_unbounded x - x\<bar> = s * \<bar>of_int m - x / s\<bar>"
    using s by (simp add: abs_mult)
  also have "\<dots> \<le> s * (1 / 2)"
    using s round_half_even_error [of "x / s"] unfolding m_def
    by (intro mult_left_mono) simp_all
  finally show ?thesis by (simp add: s_def)
qed

lemma round_unbounded_mono:
  assumes "0 \<le> x" and "x \<le> y"
  shows "round_unbounded x \<le> round_unbounded y"
proof (cases "x = 0")
  case True
  then show ?thesis
    using round_unbounded_nonneg [of y] assms by (simp add: round_unbounded_0)
next
  case False
  then have xp: "0 < x" and yp: "0 < y" using assms by simp_all
  define ex where "ex = ilog2 x"
  define ey where "ey = ilog2 y"
  define qx where "qx = ulp_exp x"
  define qy where "qy = ulp_exp y"
  have qx: "qx = max (ex - 52) (- 1074)" using xp by (simp add: qx_def ulp_exp_def ex_def)
  have qy: "qy = max (ey - 52) (- 1074)" using yp by (simp add: qy_def ulp_exp_def ey_def)
  have exy: "ex \<le> ey" unfolding ex_def ey_def by (rule ilog2_mono [OF xp assms(2)])
  have bx: "x < power_int 2 (ex + 1)" unfolding ex_def by (rule ilog2_bounds(2) [OF xp])
  have bdy: "power_int 2 ey \<le> y" unfolding ey_def by (rule ilog2_bounds(1) [OF yp])
  have rx: "round_unbounded x = of_int (round_half_even (x / power_int 2 qx)) * power_int 2 qx"
    by (simp add: round_unbounded_def Let_def qx_def)
  have ry: "round_unbounded y = of_int (round_half_even (y / power_int 2 qy)) * power_int 2 qy"
    by (simp add: round_unbounded_def Let_def qy_def)
  show ?thesis
  proof (cases "qx = qy")
    case True
    have "x / power_int 2 qx \<le> y / power_int 2 qx"
      using assms(2) by (simp add: divide_right_mono)
    then have "round_half_even (x / power_int 2 qx) \<le> round_half_even (y / power_int 2 qx)"
      by (rule round_half_even_mono)
    then show ?thesis unfolding rx ry True [symmetric]
      by (simp add: mult_right_mono)
  next
    case False
    then have lt: "qx < qy" using qx qy exy by linarith
    then have qy52: "qy = ey - 52" using qx qy by linarith
    have exlt: "ex + 1 \<le> ey" using lt qx qy52 by linarith
    define B :: rat where "B = power_int 2 ey"
    have "power_int (2::rat) (ex + 1) \<le> power_int 2 ey" using exlt by (simp add: powi2_le_iff)
    then have xB: "x \<le> B" using bx by (simp add: B_def)
    have d1: "0 \<le> ey - qx" using lt qy52 by linarith
    have Bx: "B / power_int 2 qx = power_int 2 (ey - qx)"
      by (simp add: B_def power_int_diff)
    have "x / power_int 2 qx \<le> B / power_int 2 qx"
      using xB by (simp add: divide_right_mono)
    then have "round_half_even (x / power_int 2 qx) \<le> round_half_even (power_int 2 (ey - qx))"
      unfolding Bx by (rule round_half_even_mono)
    then have "round_half_even (x / power_int 2 qx) \<le> 2 ^ nat (ey - qx)"
      by (simp only: round_half_even_powi [OF d1])
    then have "(of_int (round_half_even (x / power_int 2 qx)) :: rat) \<le> of_int (2 ^ nat (ey - qx))"
      by (simp only: of_int_le_iff)
    then have "(of_int (round_half_even (x / power_int 2 qx)) :: rat) \<le> power_int 2 (ey - qx)"
      using d1 by (simp add: power_int_nonneg_exp)
    then have "round_unbounded x \<le> power_int 2 (ey - qx) * power_int 2 qx"
      unfolding rx by (simp add: mult_right_mono)
    then have 1: "round_unbounded x \<le> B"
      by (simp add: B_def power_int_add [symmetric])
    have By: "B / power_int 2 qy = power_int 2 52"
      by (simp add: B_def qy52 power_int_diff [symmetric])
    have "B / power_int 2 qy \<le> y / power_int 2 qy"
      using bdy by (simp add: B_def divide_right_mono)
    then have "round_half_even (power_int 2 52) \<le> round_half_even (y / power_int 2 qy)"
      unfolding By by (rule round_half_even_mono)
    moreover have "round_half_even (power_int 2 52) = 2 ^ nat 52"
      by (rule round_half_even_powi) simp
    ultimately have "2 ^ nat 52 \<le> round_half_even (y / power_int 2 qy)"
      by simp
    then have "(of_int (2 ^ nat 52) :: rat) \<le> of_int (round_half_even (y / power_int 2 qy))"
      by (simp only: of_int_le_iff)
    then have "power_int 2 52 * power_int 2 qy \<le> round_unbounded y"
      unfolding ry by (simp add: mult_right_mono)
    then have 2: "B \<le> round_unbounded y"
      by (simp add: B_def qy52 power_int_diff)
    from 1 2 show ?thesis by simp
  qed
qed


lemma round_half_even_half: "round_half_even (1 / 2) = 0"
proof -
  have "\<lfloor>1 / 2 :: rat\<rfloor> = 0" by (rule floor_unique) simp_all
  then show ?thesis by (simp add: round_half_even_def)
qed

lemma powi_multiple:
  assumes "q' \<le> q"
  shows "of_int n * power_int (2::rat) q = of_int (n * 2 ^ nat (q - q')) * power_int 2 q'"
proof -
  have "power_int (2::rat) q = power_int 2 (q - q') * power_int 2 q'"
    by (simp add: power_int_add [symmetric])
  moreover have "power_int (2::rat) (q - q') = of_int (2 ^ nat (q - q'))"
    using assms by (simp add: power_int_nonneg_exp)
  ultimately show ?thesis by simp
qed

lemma round_unbounded_fixI:
  assumes "x = of_int n * power_int 2 (ulp_exp x)"
  shows "round_unbounded x = x"
proof -
  define q where "q = ulp_exp x"
  have x: "x = of_int n * power_int 2 q" using assms by (simp add: q_def)
  have "x / power_int 2 q = of_int n" by (subst x) simp
  then have "round_half_even (x / power_int 2 q) = n" by (simp only: round_half_even_of_int)
  then have "round_unbounded x = of_int n * power_int 2 q"
    by (simp add: round_unbounded_def Let_def q_def)
  then show ?thesis using x by simp
qed

lemma round_unbounded_idem:
  assumes "0 \<le> x"
  shows "round_unbounded (round_unbounded x) = round_unbounded x"
proof (cases "round_unbounded x = 0")
  case True
  then show ?thesis by (simp add: round_unbounded_0)
next
  case False
  define r where "r = round_unbounded x"
  have rpos: "0 < r" using False round_unbounded_nonneg [OF assms] by (simp add: r_def)
  have xpos: "0 < x" using False assms by (cases "x = 0") (simp_all add: round_unbounded_0)
  define e where "e = ilog2 x"
  define q where "q = ulp_exp x"
  define m where "m = round_half_even (x / power_int 2 q)"
  have q: "q = max (e - 52) (- 1074)" using xpos by (simp add: q_def ulp_exp_def e_def)
  have r: "r = of_int m * power_int 2 q"
    by (simp add: r_def round_unbounded_def Let_def q_def m_def)
  have mpos: "0 < m"
  proof (rule ccontr)
    assume "\<not> 0 < m"
    then have "(of_int m :: rat) \<le> 0" by simp
    then have "r \<le> 0" unfolding r by (simp add: mult_le_0_iff)
    with rpos show False by simp
  qed
  have xlt: "x < power_int 2 (e + 1)" unfolding e_def by (rule ilog2_bounds(2) [OF xpos])
  have xs: "x / power_int 2 q \<le> power_int 2 (e + 1 - q)"
  proof -
    have "x / power_int 2 q \<le> power_int 2 (e + 1) / power_int 2 q"
      using xlt by (simp add: divide_right_mono)
    then show ?thesis by (simp add: power_int_diff)
  qed
  have k: "0 \<le> e + 1 - q"
  proof (rule ccontr)
    assume "\<not> 0 \<le> e + 1 - q"
    then have "e + 1 - q \<le> - 1" by simp
    then have "power_int (2::rat) (e + 1 - q) \<le> power_int 2 (- 1)" by (simp only: powi2_le_iff)
    moreover have "power_int (2::rat) (- 1) = 1 / 2" by (simp add: power_int_minus)
    ultimately have "x / power_int 2 q \<le> 1 / 2" using xs by linarith
    then have "m \<le> round_half_even (1 / 2)" unfolding m_def by (rule round_half_even_mono)
    with mpos show False by (simp add: round_half_even_half)
  qed
  have "m \<le> round_half_even (power_int 2 (e + 1 - q))"
    unfolding m_def using xs by (rule round_half_even_mono)
  then have mle: "m \<le> 2 ^ nat (e + 1 - q)" by (simp only: round_half_even_powi [OF k])
  then have "(of_int m :: rat) \<le> of_int (2 ^ nat (e + 1 - q))" by (simp only: of_int_le_iff)
  then have "(of_int m :: rat) \<le> power_int 2 (e + 1 - q)"
    using k by (simp add: power_int_nonneg_exp)
  then have "r \<le> power_int 2 (e + 1 - q) * power_int 2 q"
    unfolding r by (simp add: mult_right_mono)
  then have rle: "r \<le> power_int 2 (e + 1)" by (simp add: power_int_add [symmetric])
  define e' where "e' = ilog2 r"
  define q' where "q' = ulp_exp r"
  have q': "q' = max (e' - 52) (- 1074)" using rpos by (simp add: q'_def ulp_exp_def e'_def)
  have "\<exists>n. r = of_int n * power_int 2 q'"
  proof (cases "r = power_int 2 (e + 1)")
    case True
    have "power_int 2 (e + 1) \<le> r" and "r < power_int 2 (e + 1 + 1)"
      using True by (simp_all add: powi2_less_iff)
    then have "e' = e + 1" unfolding e'_def by (rule ilog2_unique)
    then have le: "q' \<le> e + 1" using q' q k by linarith
    have "r = of_int 1 * power_int 2 (e + 1)" using True by simp
    also have "\<dots> = of_int (1 * 2 ^ nat (e + 1 - q')) * power_int 2 q'"
      using le by (rule powi_multiple)
    finally show ?thesis by blast
  next
    case False
    then have "r < power_int 2 (e + 1)" using rle by simp
    moreover have "power_int 2 e' \<le> r" unfolding e'_def by (rule ilog2_bounds(1) [OF rpos])
    ultimately have "power_int (2::rat) e' < power_int 2 (e + 1)" by simp
    then have "e' \<le> e" by (simp add: powi2_less_iff)
    then have le: "q' \<le> q" using q q' by linarith
    note r
    also have "of_int m * power_int (2::rat) q = of_int (m * 2 ^ nat (q - q')) * power_int 2 q'"
      using le by (rule powi_multiple)
    finally show ?thesis by blast
  qed
  then obtain n where "r = of_int n * power_int 2 (ulp_exp r)" by (auto simp: q'_def)
  then have "round_unbounded r = r" by (rule round_unbounded_fixI)
  then show ?thesis by (simp add: r_def)
qed

lemma round_double_nonneg:
  assumes "0 \<le> x"
  shows "fle (Fin 0) (round_double x)"
  using round_unbounded_nonneg [OF assms] by (simp add: round_double_def Let_def)

lemma round_double_mono:
  assumes "0 \<le> x" and "x \<le> y"
  shows "fle (round_double x) (round_double y)"
proof -
  have "0 \<le> round_unbounded x" using assms(1) by (rule round_unbounded_nonneg)
  moreover have "round_unbounded x \<le> round_unbounded y" using assms by (rule round_unbounded_mono)
  ultimately show ?thesis by (simp add: round_double_def Let_def)
qed

lemma round_double_Fin:
  assumes "round_double x = Fin r"
  shows "r = round_unbounded x" and "\<not> 2 ^ 1024 \<le> r" and "\<not> r \<le> - (2 ^ 1024)"
  using assms by (auto simp: round_double_def Let_def split: if_splits)

lemma round_double_idem:
  assumes "0 \<le> x" and "round_double x = Fin r"
  shows "round_double r = Fin r"
proof -
  note r = round_double_Fin [OF assms(2)]
  have "round_unbounded r = r" using round_unbounded_idem [OF assms(1)] r(1) by simp
  then show ?thesis using r(2,3) by (simp add: round_double_def Let_def)
qed

lemma ulp_le:
  "power_int 2 (ulp_exp x) / 2 \<le> \<bar>x\<bar> / 2 ^ 53 + 1 / 2 ^ 1075" if "x \<noteq> 0"
proof -
  define e where "e = ilog2 \<bar>x\<bar>"
  have xpos: "0 < \<bar>x\<bar>" using that by simp
  have lo: "power_int 2 e \<le> \<bar>x\<bar>" unfolding e_def by (rule ilog2_bounds(1) [OF xpos])
  have q: "ulp_exp x = max (e - 52) (- 1074)" by (simp add: ulp_exp_def e_def)
  show ?thesis
  proof (cases "e - 52 \<le> - 1074")
    case True
    then have "ulp_exp x = - 1074" using q by simp
    then have "power_int (2::rat) (ulp_exp x) / 2 = 1 / 2 ^ 1075" by (simp add: power_int_minus)
    then show ?thesis by simp
  next
    case False
    then have "ulp_exp x = e - 52" using q by simp
    then have "power_int (2::rat) (ulp_exp x) / 2 = power_int 2 e / 2 ^ 53"
      by (simp add: power_int_diff)
    also have "\<dots> \<le> \<bar>x\<bar> / 2 ^ 53" using lo by (simp add: divide_right_mono)
    finally show ?thesis by simp
  qed
qed

lemma ulp_le_normal:
  assumes "1 / 2 ^ 1022 \<le> \<bar>x\<bar>"
  shows "power_int 2 (ulp_exp x) / 2 \<le> \<bar>x\<bar> / 2 ^ 53"
proof -
  define e where "e = ilog2 \<bar>x\<bar>"
  have "(0::rat) < 1 / 2 ^ 1022" by simp
  then have xpos: "0 < \<bar>x\<bar>" using assms by (rule less_le_trans)
  have lo: "power_int 2 e \<le> \<bar>x\<bar>" unfolding e_def by (rule ilog2_bounds(1) [OF xpos])
  have hi: "\<bar>x\<bar> < power_int 2 (e + 1)" unfolding e_def by (rule ilog2_bounds(2) [OF xpos])
  have "power_int (2::rat) (- 1022) = 1 / 2 ^ 1022" by (simp add: power_int_minus)
  then have "power_int (2::rat) (- 1022) < power_int 2 (e + 1)" using assms hi by simp
  then have "- 1022 < e + 1" by (simp only: powi2_less_iff)
  then have "ulp_exp x = e - 52" by (simp add: ulp_exp_def e_def)
  then have "power_int (2::rat) (ulp_exp x) / 2 = power_int 2 e / 2 ^ 53"
    by (simp add: power_int_diff)
  also have "\<dots> \<le> \<bar>x\<bar> / 2 ^ 53" using lo by (simp add: divide_right_mono)
  finally show ?thesis .
qed

lemma round_unbounded_rel_error:
  "\<bar>round_unbounded x - x\<bar> \<le> \<bar>x\<bar> / 2 ^ 53 + 1 / 2 ^ 1075"
proof (cases "x = 0")
  case True
  then show ?thesis by (simp add: round_unbounded_0)
next
  case False
  then show ?thesis using round_unbounded_error [of x] ulp_le [of x] by linarith
qed

lemma round_unbounded_rel_error_normal:
  assumes "1 / 2 ^ 1022 \<le> \<bar>x\<bar>"
  shows "\<bar>round_unbounded x - x\<bar> \<le> \<bar>x\<bar> / 2 ^ 53"
  using round_unbounded_error [of x] ulp_le_normal [OF assms] by linarith

text \<open>The doubles the literals and the examples below denote.\<close>

lemma rd_1: "round_double (944473296573929 / 2361183241434822606848) = Fin (944473296573929 / 2361183241434822606848)"
  by (subst round_double_eval [where e = "- 22"]) (simp_all add: rd_eval)

lemma rd_2: "round_double (17014118346046923347721046169065 / 42535295865117307932921825928971026432) = Fin (944473296573929 / 2361183241434822606848)"
  by (subst round_double_eval [where e = "- 22"]) (simp_all add: rd_eval)

lemma rd_3: "round_double (944473296573929 / 1180591620717411303424) = Fin (944473296573929 / 1180591620717411303424)"
  by (subst round_double_eval [where e = "- 21"]) (simp_all add: rd_eval)

lemma rd_4: "round_double (17014118346046923347721046169065 / 21267647932558653966460912964485513216) = Fin (944473296573929 / 1180591620717411303424)"
  by (subst round_double_eval [where e = "- 21"]) (simp_all add: rd_eval)

lemma rd_5: "round_double (1 / 1000000) = Fin (4722366482869645 / 4722366482869645213696)"
  by (subst round_double_eval [where e = "- 20"]) (simp_all add: rd_eval)

lemma rd_6: "round_double (2833419889721787 / 2361183241434822606848) = Fin (2833419889721787 / 2361183241434822606848)"
  by (subst round_double_eval [where e = "- 20"]) (simp_all add: rd_eval)

lemma rd_7: "round_double (6380294379767596705755355050449 / 5316911983139663491615228241121378304) = Fin (5666839779443575 / 4722366482869645213696)"
  by (subst round_double_eval [where e = "- 20"]) (simp_all add: rd_eval)

lemma rd_8: "round_double (5666839779443575 / 4722366482869645213696) = Fin (5666839779443575 / 4722366482869645213696)"
  by (subst round_double_eval [where e = "- 20"]) (simp_all add: rd_eval)

lemma rd_9: "round_double (1 / 500000) = Fin (4722366482869645 / 2361183241434822606848)"
  by (subst round_double_eval [where e = "- 19"]) (simp_all add: rd_eval)

lemma rd_10: "round_double (3 / 1000000) = Fin (1770887431076117 / 590295810358705651712)"
  by (subst round_double_eval [where e = "- 19"]) (simp_all add: rd_eval)

lemma rd_11: "round_double (1 / 40) = Fin (3602879701896397 / 144115188075855872)"
  by (subst round_double_eval [where e = "- 6"]) (simp_all add: rd_eval)

lemma rd_12: "round_double (1 / 10) = Fin (3602879701896397 / 36028797018963968)"
  by (subst round_double_eval [where e = "- 4"]) (simp_all add: rd_eval)

lemma rd_13: "round_double (1 / 5) = Fin (3602879701896397 / 18014398509481984)"
  by (subst round_double_eval [where e = "- 3"]) (simp_all add: rd_eval)

lemma rd_14: "round_double (3602879701896397 / 18014398509481984) = Fin (3602879701896397 / 18014398509481984)"
  by (subst round_double_eval [where e = "- 3"]) (simp_all add: rd_eval)

lemma rd_15: "round_double (1 / 4) = Fin (1 / 4)"
  by (subst round_double_eval [where e = "- 2"]) (simp_all add: rd_eval)

lemma rd_16: "round_double (11 / 40) = Fin (2476979795053773 / 9007199254740992)"
  by (subst round_double_eval [where e = "- 2"]) (simp_all add: rd_eval)

lemma rd_17: "round_double (2 / 5) = Fin (3602879701896397 / 9007199254740992)"
  by (subst round_double_eval [where e = "- 2"]) (simp_all add: rd_eval)

lemma rd_18: "round_double (3602879701896397 / 9007199254740992) = Fin (3602879701896397 / 9007199254740992)"
  by (subst round_double_eval [where e = "- 2"]) (simp_all add: rd_eval)

lemma rd_19: "round_double (1 / 2) = Fin (1 / 2)"
  by (subst round_double_eval [where e = "- 1"]) (simp_all add: rd_eval)

lemma rd_20: "round_double (3602879701896397 / 4503599627370496) = Fin (3602879701896397 / 4503599627370496)"
  by (subst round_double_eval [where e = "- 1"]) (simp_all add: rd_eval)

lemma rd_21: "round_double (1) = Fin (1)"
  by (subst round_double_eval [where e = "0"]) (simp_all add: rd_eval)

lemma rd_22: "round_double (11 / 10) = Fin (2476979795053773 / 2251799813685248)"
  by (subst round_double_eval [where e = "0"]) (simp_all add: rd_eval)

lemma rd_23: "round_double (6 / 5) = Fin (5404319552844595 / 4503599627370496)"
  by (subst round_double_eval [where e = "0"]) (simp_all add: rd_eval)

lemma rd_24: "round_double (10808639105689191 / 9007199254740992) = Fin (1351079888211149 / 1125899906842624)"
  by (subst round_double_eval [where e = "0"]) (simp_all add: rd_eval)

lemma rd_25: "round_double (8 / 5) = Fin (3602879701896397 / 2251799813685248)"
  by (subst round_double_eval [where e = "0"]) (simp_all add: rd_eval)

lemma rd_26: "round_double (2) = Fin (2)"
  by (subst round_double_eval [where e = "1"]) (simp_all add: rd_eval)

lemma rd_27: "round_double (5 / 2) = Fin (5 / 2)"
  by (subst round_double_eval [where e = "1"]) (simp_all add: rd_eval)

lemma rd_28: "round_double (3) = Fin (3)"
  by (subst round_double_eval [where e = "1"]) (simp_all add: rd_eval)

lemma rd_29: "round_double (4) = Fin (4)"
  by (subst round_double_eval [where e = "2"]) (simp_all add: rd_eval)

lemma rd_30: "round_double (22 / 5) = Fin (2476979795053773 / 562949953421312)"
  by (subst round_double_eval [where e = "2"]) (simp_all add: rd_eval)

lemma rd_31: "round_double (5) = Fin (5)"
  by (subst round_double_eval [where e = "2"]) (simp_all add: rd_eval)

lemma rd_32: "round_double (6) = Fin (6)"
  by (subst round_double_eval [where e = "2"]) (simp_all add: rd_eval)

lemma rd_33: "round_double (8) = Fin (8)"
  by (subst round_double_eval [where e = "3"]) (simp_all add: rd_eval)

lemma rd_34: "round_double (10) = Fin (10)"
  by (subst round_double_eval [where e = "3"]) (simp_all add: rd_eval)

lemma rd_35: "round_double (40) = Fin (40)"
  by (subst round_double_eval [where e = "5"]) (simp_all add: rd_eval)

lemmas rd_consts = round_double_0 rd_1 rd_2 rd_3 rd_4 rd_5 rd_6 rd_7 rd_8 rd_9 rd_10 rd_11 rd_12 rd_13 rd_14 rd_15 rd_16 rd_17 rd_18 rd_19 rd_20 rd_21 rd_22 rd_23 rd_24 rd_25 rd_26 rd_27 rd_28 rd_29 rd_30 rd_31 rd_32 rd_33 rd_34 rd_35

lemma rd_s_1: "round_double (3602879701896397 / 36028797018963968) = Fin (3602879701896397 / 36028797018963968)"
  by (subst round_double_eval [where e = "- 4"]) (simp_all add: rd_eval)

lemma rd_s_2: "round_double (10808639105689191 / 36028797018963968) = Fin (1351079888211149 / 4503599627370496)"
  by (subst round_double_eval [where e = "- 2"]) (simp_all add: rd_eval)

lemma rd_s_3: "round_double (14411518807585589 / 36028797018963968) = Fin (3602879701896397 / 9007199254740992)"
  by (subst round_double_eval [where e = "- 2"]) (simp_all add: rd_eval)

lemma rd_s_4: "round_double (18014398509481985 / 36028797018963968) = Fin (1 / 2)"
  by (subst round_double_eval [where e = "- 1"]) (simp_all add: rd_eval)

lemma rd_s_5: "round_double (21617278211378381 / 36028797018963968) = Fin (5404319552844595 / 9007199254740992)"
  by (subst round_double_eval [where e = "- 1"]) (simp_all add: rd_eval)

lemma rd_s_6: "round_double (25220157913274777 / 36028797018963968) = Fin (3152519739159347 / 4503599627370496)"
  by (subst round_double_eval [where e = "- 1"]) (simp_all add: rd_eval)

lemma rd_s_7: "round_double (28823037615171173 / 36028797018963968) = Fin (7205759403792793 / 9007199254740992)"
  by (subst round_double_eval [where e = "- 1"]) (simp_all add: rd_eval)

lemma rd_s_8: "round_double (32425917317067569 / 36028797018963968) = Fin (2026619832316723 / 2251799813685248)"
  by (subst round_double_eval [where e = "- 1"]) (simp_all add: rd_eval)

lemma rd_s_9: "round_double (36028797018963965 / 36028797018963968) = Fin (9007199254740991 / 9007199254740992)"
  by (subst round_double_eval [where e = "- 1"]) (simp_all add: rd_eval)

lemma rd_s_10: "round_double (18014398509481985 / 18014398509481984) = Fin 1"
  by (subst round_double_eval [where e = "0"]) (simp_all add: rd_eval)

lemmas rd_sums = rd_s_1 rd_s_2 rd_s_3 rd_s_4 rd_s_5 rd_s_6 rd_s_7 rd_s_8 rd_s_9 rd_s_10

section \<open>Evaluating the operations on examples\<close>

lemmas cc_eval = calculate_cost_def int_truediv_def float_lit_def rd_consts

lemma get_model_info_gpt41:
  "get_model_info ''gpt-4.1'' =
     Inr \<lparr>input_price = Fin 2, cached_input_price = Fin (1 / 2), output_price = Fin 8,
          description = ''Smartest model for complex tasks''\<rparr>"
  by (simp add: get_model_info_def MODEL_PRICING_def float_lit_def rd_consts)

lemma calculate_cost_gpt41:
  "calculate_cost \<lparr>input_price = Fin 2, cached_input_price = Fin (1 / 2), output_price = Fin 8,
          description = d\<rparr> 1000000 0 False = Inr (Fin 2)"
  by (simp add: cc_eval)

lemma log_request_gpt41:
  "log_request ''gpt-4.1'' ''a.pdf'' 1000000 0 False None (CostMonitor_init fs) =
     (Inr (Fin 2),
      \<lparr>total_cost = Fin 2, cost_by_model = 0, cost_by_file = 1,
       heap = (\<lambda>_. Map.empty)(0 := [''gpt-4.1'' \<mapsto> Fin 2], 1 := [''a.pdf'' \<mapsto> Fin 2]),
       files = fs,
       audit = [RequestLine ''gpt-4.1'' ''a.pdf'' 1000000 0 (Fin 2)]\<rparr>)"
  by (simp add: log_request_def get_model_info_gpt41 calculate_cost_gpt41 CostMonitor_init_def
      dict_get_def dict_set_def rd_consts)



section \<open>Unknown models\<close>

text \<open>
  Claim C2. For every state, \<open>log_request\<close> with a model name that is not a key of
  \<open>MODEL_PRICING\<close> and without a price record raises the error of \<open>get_model_info\<close>
  (\<open>ValueError\<close> with the message \<open>Unknown model: <name>\<close>, the spec's UnknownModelError) and
  leaves the whole state as it was: the total, both dictionaries, and also the files and the
  log.
\<close>

theorem log_request_unknown_model:
  assumes "model_name \<notin> fst ` set MODEL_PRICING"
  shows "log_request model_name file_path input_tokens output_tokens is_cached None s =
           (Inl (ValueError (''Unknown model: '' @ model_name)), s)"
proof -
  have "map_of MODEL_PRICING model_name = None"
    using assms by (simp add: map_of_eq_None_iff)
  then show ?thesis by (simp add: log_request_def get_model_info_def)
qed

theorem log_request_unknown_model_witness:
  "''o5'' \<notin> fst ` set MODEL_PRICING \<and>
   log_request ''o5'' ''a.pdf'' 1200 300 False None (CostMonitor_init Map.empty) =
     (Inl (ValueError ''Unknown model: o5''), CostMonitor_init Map.empty)"
proof -
  have h: "''o5'' \<notin> fst ` set MODEL_PRICING" by (simp add: MODEL_PRICING_def)
  show ?thesis
    using h log_request_unknown_model [OF h, of "''a.pdf''" 1200 300 False "CostMonitor_init Map.empty"]
    by simp
qed

section \<open>A logged request\<close>



section \<open>A price record supplied by the caller\<close>



section \<open>The pricing registry\<close>

lemma float_lit_price_ok:
  assumes "0 \<le> x" and "case round_double x of Fin r \<Rightarrow> True | _ \<Rightarrow> False"
  shows "price_ok (float_lit x)"
proof -
  obtain r where r: "round_double x = Fin r" using assms(2) by (cases "round_double x") simp_all
  have "fle (Fin 0) (Fin r)" using round_double_nonneg [OF assms(1)] r by simp
  moreover have "round_double r = Fin r" using assms(1) r by (rule round_double_idem)
  ultimately show ?thesis using r by (simp add: float_lit_def)
qed

lemma MODEL_PRICING_values:
  "map (\<lambda>(name, p). (name, input_price p, cached_input_price p, output_price p)) MODEL_PRICING =
     [(''gpt-4.1'', Fin 2, Fin (1 / 2), Fin 8),
      (''gpt-4.1-mini'', Fin (3602879701896397 / 9007199254740992),
         Fin (3602879701896397 / 36028797018963968), Fin (3602879701896397 / 2251799813685248)),
      (''gpt-4.1-nano'', Fin (3602879701896397 / 36028797018963968),
         Fin (3602879701896397 / 144115188075855872), Fin (3602879701896397 / 9007199254740992)),
      (''o3'', Fin 10, Fin (5 / 2), Fin 40),
      (''o4-mini'', Fin (2476979795053773 / 2251799813685248),
         Fin (2476979795053773 / 9007199254740992), Fin (2476979795053773 / 562949953421312))]"
  by (simp add: MODEL_PRICING_def float_lit_def rd_consts)

lemma registry_pricing_ok:
  assumes "get_model_info name = Inr p"
  shows "pricing_ok p"
proof -
  have ok: "price_ok (float_lit 2)" "price_ok (float_lit (1 / 2))" "price_ok (float_lit 8)"
    "price_ok (float_lit (40 / 100))" "price_ok (float_lit (10 / 100))"
    "price_ok (float_lit (160 / 100))" "price_ok (float_lit (100 / 1000))"
    "price_ok (float_lit (25 / 1000))" "price_ok (float_lit (400 / 1000))"
    "price_ok (float_lit 10)" "price_ok (float_lit (250 / 100))" "price_ok (float_lit 40)"
    "price_ok (float_lit (1100 / 1000))" "price_ok (float_lit (275 / 1000))"
    "price_ok (float_lit (4400 / 1000))"
    by (rule float_lit_price_ok, simp, simp add: rd_consts)+
  show ?thesis
    using assms ok
    by (auto simp: get_model_info_def MODEL_PRICING_def pricing_ok_def split: if_splits)
qed

text \<open>
  Claim C9. The registry holds the price constants of the source: the record of
  \<open>gpt-4.1\<close> has input price 2.00, cached-input price 0.50 and output price 8.00, each of
  the fifteen prices is the double its decimal literal denotes, and all three prices of
  every registered record are non-negative.
\<close>

theorem MODEL_PRICING_prices:
  "get_model_info ''gpt-4.1'' =
     Inr \<lparr>input_price = Fin 2, cached_input_price = Fin (1 / 2), output_price = Fin 8,
          description = ''Smartest model for complex tasks''\<rparr> \<and>
   map (\<lambda>(name, p). (name, input_price p, cached_input_price p, output_price p)) MODEL_PRICING =
     [(''gpt-4.1'', float_lit 2, float_lit (50 / 100), float_lit 8),
      (''gpt-4.1-mini'', float_lit (40 / 100), float_lit (10 / 100), float_lit (160 / 100)),
      (''gpt-4.1-nano'', float_lit (100 / 1000), float_lit (25 / 1000), float_lit (400 / 1000)),
      (''o3'', float_lit 10, float_lit (250 / 100), float_lit 40),
      (''o4-mini'', float_lit (1100 / 1000), float_lit (275 / 1000), float_lit (4400 / 1000))] \<and>
   (\<forall>name p. get_model_info name = Inr p \<longrightarrow>
      fle (Fin 0) (input_price p) \<and> fle (Fin 0) (cached_input_price p) \<and>
      fle (Fin 0) (output_price p))"
proof -
  have "fle (Fin 0) v" if "price_ok v" for v using that by (cases v) simp_all
  then have "fle (Fin 0) (input_price p) \<and> fle (Fin 0) (cached_input_price p) \<and>
      fle (Fin 0) (output_price p)" if "get_model_info name = Inr p" for name p
    using registry_pricing_ok [OF that] by (simp add: pricing_ok_def)
  moreover have "map (\<lambda>(name, p). (name, input_price p, cached_input_price p, output_price p))
      MODEL_PRICING =
     [(''gpt-4.1'', float_lit 2, float_lit (50 / 100), float_lit 8),
      (''gpt-4.1-mini'', float_lit (40 / 100), float_lit (10 / 100), float_lit (160 / 100)),
      (''gpt-4.1-nano'', float_lit (100 / 1000), float_lit (25 / 1000), float_lit (400 / 1000)),
      (''o3'', float_lit 10, float_lit (250 / 100), float_lit 40),
      (''o4-mini'', float_lit (1100 / 1000), float_lit (275 / 1000), float_lit (4400 / 1000))]"
    by (simp add: MODEL_PRICING_def)
  ultimately show ?thesis using get_model_info_gpt41 by blast
qed

theorem MODEL_PRICING_prices_witness:
  "get_model_info ''o3'' =
     Inr \<lparr>input_price = Fin 10, cached_input_price = Fin (5 / 2), output_price = Fin 40,
          description = ''Most powerful reasoning model with leading performance on coding, math, science, and vision''\<rparr> \<and>
   fle (Fin 0) (Fin 10) \<and> fle (Fin 0) (Fin (5 / 2)) \<and> fle (Fin 0) (Fin 40)"
proof -
  have h: "get_model_info ''o3'' =
     Inr \<lparr>input_price = Fin 10, cached_input_price = Fin (5 / 2), output_price = Fin 40,
          description = ''Most powerful reasoning model with leading performance on coding, math, science, and vision''\<rparr>"
    by (simp add: get_model_info_def MODEL_PRICING_def float_lit_def rd_consts)
  from MODEL_PRICING_prices have "\<forall>name p. get_model_info name = Inr p \<longrightarrow>
      fle (Fin 0) (input_price p) \<and> fle (Fin 0) (cached_input_price p) \<and>
      fle (Fin 0) (output_price p)" by blast
  from this [rule_format, OF h] h show ?thesis by simp
qed

section \<open>A batch of requests\<close>

lemma round_double_error:
  assumes "round_double x = Fin r"
  shows "\<bar>r - x\<bar> \<le> 1 / 2 ^ 53 * \<bar>x\<bar> + 1 / 2 ^ 1075"
  using round_unbounded_rel_error [of x] round_double_Fin(1) [OF assms] by simp

lemma fadd_Fin:
  assumes "fadd v w = Fin z"
  obtains x y where "v = Fin x" and "w = Fin y" and "round_double (x + y) = Fin z"
  using assms by (cases v; cases w) simp_all

lemma running_total_step:
  fixes S S0 E0 A0 c k u h :: rat
  assumes d0: "\<bar>S0 - E0\<bar> \<le> k * (2 * (u * A0) + 2 * h)"
    and e: "\<bar>S - (S0 + c)\<bar> \<le> u * \<bar>S0 + c\<bar> + h"
    and a0: "\<bar>E0\<bar> \<le> A0" and k: "0 \<le> k" "2 * (u * k) \<le> 1" and h: "0 \<le> h" and u: "0 \<le> u"
  shows "\<bar>S - (E0 + c)\<bar> \<le> (k + 1) * (2 * (u * (A0 + \<bar>c\<bar>)) + 2 * h)"
proof -
  define T where "T = u * (A0 + \<bar>c\<bar>) + h"
  define T0 where "T0 = u * A0 + h"
  define D0 where "D0 = \<bar>S0 - E0\<bar>"
  define X where "X = \<bar>S0 + c\<bar>"
  have A0: "0 \<le> A0" using a0 by simp
  have "u * A0 \<le> u * (A0 + \<bar>c\<bar>)" using u by (rule mult_left_mono [rotated]) simp
  then have T0T: "T0 \<le> T" by (simp add: T0_def T_def)
  have T0: "0 \<le> T0" using A0 h u by (simp add: T0_def)
  then have T: "0 \<le> T" using T0T by simp
  have "k * T0 \<le> k * T" using T0T k(1) by (rule mult_left_mono)
  moreover have "D0 \<le> 2 * (k * T0)" using d0 by (simp add: D0_def T0_def algebra_simps)
  ultimately have D: "D0 \<le> 2 * (k * T)" by simp
  have "u * D0 \<le> u * (2 * (k * T))" using D u by (rule mult_left_mono)
  also have "\<dots> = (2 * (u * k)) * T" by simp
  also have "\<dots> \<le> 1 * T" using k(2) T by (rule mult_right_mono)
  finally have uD: "u * D0 \<le> T" by simp
  have "X \<le> D0 + (A0 + \<bar>c\<bar>)" using a0 by (simp add: D0_def X_def)
  then have "u * X \<le> u * (D0 + (A0 + \<bar>c\<bar>))" using u by (rule mult_left_mono)
  then have r: "u * X \<le> u * D0 + (T - h)" by (simp add: T_def algebra_simps)
  have e': "\<bar>S - (S0 + c)\<bar> \<le> u * X + h" using e by (simp add: X_def)
  have "\<bar>S - (E0 + c)\<bar> \<le> \<bar>S - (S0 + c)\<bar> + D0" by (simp add: D0_def)
  also have "\<dots> \<le> 2 * T + 2 * (k * T)" using e' r uD D by linarith
  also have "\<dots> = (k + 1) * (2 * T)" by (simp add: algebra_simps)
  finally show ?thesis by (simp add: T_def algebra_simps)
qed

lemma running_total_error:
  assumes "foldl fadd (Fin 0) (map Fin xs) = Fin S" and "length xs \<le> 2 ^ 52"
  shows "\<bar>S - sum_list xs\<bar> \<le>
           of_nat (length xs) * (sum_list (map abs xs) / 2 ^ 52 + 1 / 2 ^ 1074)"
  using assms
proof (induction xs arbitrary: S rule: rev_induct)
  case Nil
  then show ?case by simp
next
  case (snoc c ys)
  define u :: rat where "u = 1 / 2 ^ 53"
  define h :: rat where "h = 1 / 2 ^ 1075"
  define k :: rat where "k = of_nat (length ys)"
  define A0 where "A0 = sum_list (map abs ys)"
  from snoc.prems(1) have "fadd (foldl fadd (Fin 0) (map Fin ys)) (Fin c) = Fin S" by simp
  then obtain S0 c' where s0: "foldl fadd (Fin 0) (map Fin ys) = Fin S0"
    and c': "Fin c = Fin c'" and r': "round_double (S0 + c') = Fin S"
    by (rule fadd_Fin)
  from c' r' have r: "round_double (S0 + c) = Fin S" by simp
  have len: "length ys \<le> 2 ^ 52" using snoc.prems(2) by simp
  have "(of_nat (length ys) :: rat) \<le> of_nat (2 ^ 52)" using len by (simp only: of_nat_le_iff)
  then have k2: "k \<le> 2 ^ 52" by (simp add: k_def)
  have k0: "0 \<le> k" by (simp add: k_def)
  have uk: "2 * (u * k) \<le> 1"
  proof -
    have "u * k \<le> u * 2 ^ 52" using k2 by (rule mult_left_mono) (simp add: u_def)
    also have "\<dots> = 1 / 2" by (simp add: u_def)
    finally show ?thesis by simp
  qed
  have half: "x / 2 ^ 52 = 2 * (u * x)" for x :: rat by (simp add: u_def)
  have h2: "(1::rat) / 2 ^ 1074 = 2 * h" by (simp add: h_def)
  have ih: "\<bar>S0 - sum_list ys\<bar> \<le> k * (2 * (u * A0) + 2 * h)"
    using snoc.IH [OF s0 len] unfolding half h2 by (simp only: k_def A0_def)
  have e: "\<bar>S - (S0 + c)\<bar> \<le> u * \<bar>S0 + c\<bar> + h"
    using round_double_error [OF r] by (simp only: u_def h_def)
  have a: "\<bar>sum_list ys\<bar> \<le> A0" unfolding A0_def by (rule sum_list_abs)
  have "\<bar>S - (sum_list ys + c)\<bar> \<le> (k + 1) * (2 * (u * (A0 + \<bar>c\<bar>)) + 2 * h)"
    using ih e a k0 uk by (rule running_total_step) (simp_all add: h_def u_def)
  moreover have "sum_list (ys @ [c]) = sum_list ys + c" by simp
  moreover have "sum_list (map abs (ys @ [c])) = A0 + \<bar>c\<bar>" by (simp add: A0_def)
  moreover have "(of_nat (length (ys @ [c])) :: rat) = k + 1" by (simp add: k_def)
  ultimately show ?case unfolding half h2 by (simp only:)
qed

lemma log_one_Inr:
  assumes "log_one r s = (Inr cost, s')" and "cost_by_model s \<noteq> cost_by_file s"
  shows "total_cost s' = fadd (total_cost s) cost"
    and "cost_by_model s' = cost_by_model s"
    and "cost_by_file s' = cost_by_file s"
    and "heap s' (cost_by_model s) =
           (heap s (cost_by_model s))
             (req_model r \<mapsto> fadd (dict_get (heap s (cost_by_model s)) (req_model r) (Fin 0)) cost)"
    and "heap s' (cost_by_file s) =
           (heap s (cost_by_file s))
             (req_file r \<mapsto> fadd (dict_get (heap s (cost_by_file s)) (req_file r) (Fin 0)) cost)"
    and "files s' = files s"
  using assms
  by (auto simp: log_one_def log_request_def Let_def dict_set_def split: sum.splits)


lemma log_requests_Cons_Inr:
  assumes "log_requests (r # rs) s = (map Inr costs, s')"
  obtains c cs s1 where "costs = c # cs" and "log_one r s = (Inr c, s1)"
    and "log_requests rs s1 = (map Inr cs, s')"
  using assms by (cases costs) (auto split: prod.splits)

lemma log_requests_length: "length (fst (log_requests rs s)) = length rs"
proof (induction rs arbitrary: s)
  case Nil
  show ?case by simp
next
  case (Cons r rs)
  obtain res s1 where a: "log_one r s = (res, s1)" by (cases "log_one r s")
  obtain ress s2 where b: "log_requests rs s1 = (ress, s2)" by (cases "log_requests rs s1")
  have "length ress = length rs" using Cons.IH [of s1] b by simp
  then show ?case by (simp add: a b)
qed

lemma log_requests_same_model:
  assumes "\<forall>r\<in>set rs. req_model r = m"
    and "cost_by_model s \<noteq> cost_by_file s"
    and "log_requests rs s = (map Inr costs, s')"
  shows "total_cost s' = foldl fadd (total_cost s) costs \<and>
         dict_get (heap s' (cost_by_model s')) m (Fin 0) =
           foldl fadd (dict_get (heap s (cost_by_model s)) m (Fin 0)) costs \<and>
         cost_by_model s' = cost_by_model s \<and> cost_by_file s' = cost_by_file s \<and>
         (rs \<noteq> [] \<longrightarrow> heap s' (cost_by_model s') m \<noteq> None)"
  using assms
proof (induction rs arbitrary: s costs)
  case Nil
  then show ?case by simp
next
  case (Cons r rs)
  from Cons.prems(3) obtain c cs s1 where costs: "costs = c # cs"
    and one: "log_one r s = (Inr c, s1)" and rest: "log_requests rs s1 = (map Inr cs, s')"
    by (rule log_requests_Cons_Inr)
  note st = log_one_Inr [OF one Cons.prems(2)]
  have m: "req_model r = m" and ms: "\<forall>r\<in>set rs. req_model r = m" using Cons.prems(1) by simp_all
  have wf1: "cost_by_model s1 \<noteq> cost_by_file s1" using st(2,3) Cons.prems(2) by simp
  note ih = Cons.IH [OF ms wf1 rest]
  have d1: "dict_get (heap s1 (cost_by_model s1)) m (Fin 0) =
      fadd (dict_get (heap s (cost_by_model s)) m (Fin 0)) c"
    using st(2,4) m by (simp add: dict_get_def)
  have some1: "heap s1 (cost_by_model s1) m \<noteq> None" using st(2,4) m by simp
  have keep: "heap s' (cost_by_model s') m \<noteq> None"
  proof (cases "rs = []")
    case True
    then have "s' = s1" using rest by simp
    then show ?thesis using some1 by simp
  next
    case False
    then have "heap s' (cost_by_model s') m \<noteq> None" using ih by blast
    then show ?thesis .
  qed
  from ih have i1: "total_cost s' = foldl fadd (total_cost s1) cs"
    and i2: "dict_get (heap s' (cost_by_model s')) m (Fin 0) =
      foldl fadd (dict_get (heap s1 (cost_by_model s1)) m (Fin 0)) cs"
    and i3: "cost_by_model s' = cost_by_model s1" and i4: "cost_by_file s' = cost_by_file s1"
    by blast+
  have "total_cost s' = foldl fadd (total_cost s) costs" using i1 st(1) by (simp add: costs)
  moreover have "dict_get (heap s' (cost_by_model s')) m (Fin 0) =
      foldl fadd (dict_get (heap s (cost_by_model s)) m (Fin 0)) costs"
    using i2 d1 by (simp add: costs)
  moreover have "cost_by_model s' = cost_by_model s" using i3 st(2) by simp
  moreover have "cost_by_file s' = cost_by_file s" using i4 st(3) by simp
  ultimately show ?case using keep by blast
qed

lemma log_requests_two:
  "log_requests
     [\<lparr>req_model = ''gpt-4.1'', req_file = ''a.pdf'', req_input_tokens = 1000000,
       req_output_tokens = 0, req_cached = False, req_info = None\<rparr>,
      \<lparr>req_model = ''gpt-4.1'', req_file = ''b.pdf'', req_input_tokens = 1000000,
       req_output_tokens = 0, req_cached = False, req_info = None\<rparr>]
     (CostMonitor_init fs) =
   ([Inr (Fin 2), Inr (Fin 2)],
    \<lparr>total_cost = Fin 4, cost_by_model = 0, cost_by_file = 1,
       heap = (\<lambda>_. Map.empty)(0 := [''gpt-4.1'' \<mapsto> Fin 4],
                1 := [''a.pdf'' \<mapsto> Fin 2, ''b.pdf'' \<mapsto> Fin 2]),
       files = fs,
       audit = [RequestLine ''gpt-4.1'' ''a.pdf'' 1000000 0 (Fin 2),
                RequestLine ''gpt-4.1'' ''b.pdf'' 1000000 0 (Fin 2)]\<rparr>)"
  by (simp add: log_one_def log_request_def get_model_info_gpt41 calculate_cost_gpt41
      CostMonitor_init_def dict_get_def dict_set_def rd_consts fun_upd_twist)

lemma fst_log_one: "fst (log_one r s) = fst (log_one r s0)"
  by (simp add: log_one_def log_request_def Let_def split: sum.splits option.splits)

lemma log_requests_results: "fst (log_requests rs s) = map (\<lambda>r. fst (log_one r s0)) rs"
proof (induction rs arbitrary: s)
  case Nil
  show ?case by simp
next
  case (Cons r rs)
  obtain res s1 where a: "log_one r s = (res, s1)" by (cases "log_one r s")
  obtain ress s2 where b: "log_requests rs s1 = (ress, s2)" by (cases "log_requests rs s1")
  have "ress = map (\<lambda>r. fst (log_one r s0)) rs" using Cons.IH [of s1] b by simp
  moreover have "res = fst (log_one r s0)" using fst_log_one [of r s s0] a by simp
  ultimately show ?case by (simp add: a b)
qed

lemma get_model_info_nano:
  "get_model_info ''gpt-4.1-nano'' =
     Inr \<lparr>input_price = Fin (3602879701896397 / 36028797018963968),
          cached_input_price = Fin (3602879701896397 / 144115188075855872),
          output_price = Fin (3602879701896397 / 9007199254740992),
          description = ''Fastest, most cost-effective model for low-latency tasks''\<rparr>"
  by (simp add: get_model_info_def MODEL_PRICING_def float_lit_def rd_consts)

lemma log_one_nano:
  "fst (log_one \<lparr>req_model = ''gpt-4.1-nano'', req_file = f, req_input_tokens = 1000000,
                 req_output_tokens = 0, req_cached = False, req_info = None\<rparr> s) =
     Inr (Fin (3602879701896397 / 36028797018963968))"
  by (simp add: log_one_def log_request_def get_model_info_nano calculate_cost_def
      int_truediv_def rd_consts rd_sums Let_def)

text \<open>
  Ten requests for \<open>gpt-4.1-nano\<close> of 1,000,000 input tokens each, for ten files, logged
  by a new monitor. Each call returns the double 0.1. The sum of these ten costs is
  1.0000000000000000555, and the double nearest to it is 1.0; \<open>total_cost\<close> and the entry
  of the model are 0.9999999999999999.
\<close>

theorem cost_by_model_sum_counterexample:
  "(let rs = map (\<lambda>f. \<lparr>req_model = ''gpt-4.1-nano'', req_file = f, req_input_tokens = 1000000,
                    req_output_tokens = 0, req_cached = False, req_info = None\<rparr>)
             [''0.pdf'', ''1.pdf'', ''2.pdf'', ''3.pdf'', ''4.pdf'',
              ''5.pdf'', ''6.pdf'', ''7.pdf'', ''8.pdf'', ''9.pdf''];
        c = 3602879701896397 / 36028797018963968;
        s' = snd (log_requests rs (CostMonitor_init Map.empty))
    in distinct (map req_file rs) \<and>
       fst (log_requests rs (CostMonitor_init Map.empty)) = map Inr (map Fin [c, c, c, c, c, c, c, c, c, c]) \<and>
       sum_list [c, c, c, c, c, c, c, c, c, c] = 18014398509481985 / 18014398509481984 \<and>
       round_double (sum_list [c, c, c, c, c, c, c, c, c, c]) = Fin 1 \<and>
       total_cost s' = Fin (9007199254740991 / 9007199254740992) \<and>
       heap s' (cost_by_model s') ''gpt-4.1-nano'' = Some (Fin (9007199254740991 / 9007199254740992)) \<and>
       total_cost s' \<noteq> Fin (sum_list [c, c, c, c, c, c, c, c, c, c]) \<and>
       total_cost s' \<noteq> round_double (sum_list [c, c, c, c, c, c, c, c, c, c]))"
proof -
  let ?rs = "map (\<lambda>f. \<lparr>req_model = ''gpt-4.1-nano'', req_file = f, req_input_tokens = 1000000,
                    req_output_tokens = 0, req_cached = False, req_info = None\<rparr>)
             [''0.pdf'', ''1.pdf'', ''2.pdf'', ''3.pdf'', ''4.pdf'',
              ''5.pdf'', ''6.pdf'', ''7.pdf'', ''8.pdf'', ''9.pdf'']"
  let ?c = "3602879701896397 / 36028797018963968 :: rat"
  let ?s0 = "CostMonitor_init Map.empty"
  let ?s' = "snd (log_requests ?rs ?s0)"
  let ?costs = "map Fin [?c, ?c, ?c, ?c, ?c, ?c, ?c, ?c, ?c, ?c]"
  have d: "distinct (map req_file ?rs)" by simp
  have f: "fst (log_requests ?rs ?s0) = map Inr ?costs"
    by (subst log_requests_results [where ?s0.0 = ?s0]) (simp add: log_one_nano)
  then have l: "log_requests ?rs ?s0 = (map Inr ?costs, ?s')" by (simp add: prod_eq_iff)
  have m: "\<forall>r\<in>set ?rs. req_model r = ''gpt-4.1-nano''" by simp
  have wf: "cost_by_model ?s0 \<noteq> cost_by_file ?s0" by (simp add: CostMonitor_init_def)
  note st = log_requests_same_model [OF m wf l]
  have v: "foldl fadd (Fin 0) ?costs = Fin (9007199254740991 / 9007199254740992)"
    by (simp add: rd_consts rd_sums)
  have i0: "total_cost ?s0 = Fin 0"
    and i1: "dict_get (heap ?s0 (cost_by_model ?s0)) ''gpt-4.1-nano'' (Fin 0) = Fin 0"
    by (simp_all add: CostMonitor_init_def dict_get_def)
  have t: "total_cost ?s' = Fin (9007199254740991 / 9007199254740992)"
    using st [THEN conjunct1] unfolding i0 v .
  have g: "dict_get (heap ?s' (cost_by_model ?s')) ''gpt-4.1-nano'' (Fin 0) = Fin (9007199254740991 / 9007199254740992)"
    using st [THEN conjunct2, THEN conjunct1] unfolding i1 v .
  have "?rs \<noteq> []" by simp
  then have "heap ?s' (cost_by_model ?s') ''gpt-4.1-nano'' \<noteq> None"
    using st [THEN conjunct2, THEN conjunct2, THEN conjunct2, THEN conjunct2] by (rule rev_mp)
  then obtain y where y: "heap ?s' (cost_by_model ?s') ''gpt-4.1-nano'' = Some y" by blast
  have e: "heap ?s' (cost_by_model ?s') ''gpt-4.1-nano'' = Some (Fin (9007199254740991 / 9007199254740992))"
    using g unfolding dict_get_def y by simp
  have x: "sum_list [?c, ?c, ?c, ?c, ?c, ?c, ?c, ?c, ?c, ?c] =
      18014398509481985 / 18014398509481984" by simp
  have n: "round_double (sum_list [?c, ?c, ?c, ?c, ?c, ?c, ?c, ?c, ?c, ?c]) = Fin 1"
    unfolding x by (rule rd_s_10)
  have ne1: "total_cost ?s' \<noteq> Fin (sum_list [?c, ?c, ?c, ?c, ?c, ?c, ?c, ?c, ?c, ?c])"
    unfolding t x by simp
  have ne2: "total_cost ?s' \<noteq> round_double (sum_list [?c, ?c, ?c, ?c, ?c, ?c, ?c, ?c, ?c, ?c])"
    unfolding t n by simp
  show ?thesis
    unfolding Let_def
    by (intro conjI) (rule d, rule f, rule x, rule n, rule t, rule e, rule ne1, rule ne2)
qed

text \<open>
  Claim C5, as the code has it. Starting from a new \<open>CostMonitor\<close>, after \<open>N\<close> calls of
  \<open>log_request\<close> for the same model, all of which returned a cost, the entry of the model
  in \<open>cost_by_model\<close> (taken as zero when \<open>N = 0\<close> and there is none) and \<open>total_cost\<close> are
  the same float: the running total of the \<open>N\<close> returned costs, each added in the order of
  the calls to the total so far, starting from 0.0, every addition rounded to a double. It
  is the sum of the costs up to that rounding: when it is finite, it differs from their sum
  by at most \<open>N\<close> times the sum of their magnitudes divided by \<open>2 ^ 52\<close>, plus \<open>N\<close> times
  \<open>1 / 2 ^ 1074\<close> (for \<open>N\<close> up to \<open>2 ^ 52\<close>). The file paths need not be distinct for this.
\<close>

theorem cost_by_model_is_running_total:
  assumes "\<forall>r\<in>set rs. req_model r = model_name"
    and "log_requests rs (CostMonitor_init fs) = (map Inr costs, s')"
  shows "length costs = length rs \<and>
         total_cost s' = foldl fadd (Fin 0) costs \<and>
         dict_get (heap s' (cost_by_model s')) model_name (Fin 0) = foldl fadd (Fin 0) costs \<and>
         (rs \<noteq> [] \<longrightarrow>
            heap s' (cost_by_model s') model_name = Some (foldl fadd (Fin 0) costs)) \<and>
         (\<forall>xs S. costs = map Fin xs \<and> total_cost s' = Fin S \<and> length xs \<le> 2 ^ 52 \<longrightarrow>
            \<bar>S - sum_list xs\<bar> \<le>
              of_nat (length xs) * (sum_list (map abs xs) / 2 ^ 52 + 1 / 2 ^ 1074))"
proof -
  let ?s = "CostMonitor_init fs"
  have wf: "cost_by_model ?s \<noteq> cost_by_file ?s" by (simp add: CostMonitor_init_def)
  note l = log_requests_same_model [OF assms(1) wf assms(2)]
  have i0: "total_cost ?s = Fin 0"
    and i1: "dict_get (heap ?s (cost_by_model ?s)) model_name (Fin 0) = Fin 0"
    by (simp_all add: CostMonitor_init_def dict_get_def)
  have t: "total_cost s' = foldl fadd (Fin 0) costs"
    using l [THEN conjunct1] unfolding i0 .
  have g: "dict_get (heap s' (cost_by_model s')) model_name (Fin 0) =
      foldl fadd (Fin 0) costs"
    using l [THEN conjunct2, THEN conjunct1] unfolding i1 .
  have d: "rs \<noteq> [] \<longrightarrow>
      heap s' (cost_by_model s') model_name = Some (foldl fadd (Fin 0) costs)"
  proof
    assume "rs \<noteq> []"
    then have "heap s' (cost_by_model s') model_name \<noteq> None"
      using l [THEN conjunct2, THEN conjunct2, THEN conjunct2, THEN conjunct2] by (rule rev_mp)
    then obtain y where y: "heap s' (cost_by_model s') model_name = Some y" by blast
    show "heap s' (cost_by_model s') model_name = Some (foldl fadd (Fin 0) costs)"
      using g unfolding dict_get_def y by simp
  qed
  have n: "length costs = length rs" using log_requests_length [of rs ?s] assms(2) by simp
  have b: "\<forall>xs S. costs = map Fin xs \<and> total_cost s' = Fin S \<and> length xs \<le> 2 ^ 52 \<longrightarrow>
      \<bar>S - sum_list xs\<bar> \<le>
        of_nat (length xs) * (sum_list (map abs xs) / 2 ^ 52 + 1 / 2 ^ 1074)"
  proof (intro allI impI)
    fix xs S
    assume a: "costs = map Fin xs \<and> total_cost s' = Fin S \<and> length xs \<le> 2 ^ 52"
    then have c: "costs = map Fin xs" and s: "total_cost s' = Fin S"
      and len: "length xs \<le> 2 ^ 52" by blast+
    have "foldl fadd (Fin 0) (map Fin xs) = Fin S" using t unfolding c s by (rule sym)
    then show "\<bar>S - sum_list xs\<bar> \<le>
        of_nat (length xs) * (sum_list (map abs xs) / 2 ^ 52 + 1 / 2 ^ 1074)"
      using len by (rule running_total_error)
  qed
  show ?thesis by (intro conjI) (rule n, rule t, rule g, rule d, rule b)
qed

theorem cost_by_model_is_running_total_witness:
  "(let rs = [\<lparr>req_model = ''gpt-4.1'', req_file = ''a.pdf'', req_input_tokens = 1000000,
                req_output_tokens = 0, req_cached = False, req_info = None\<rparr>,
              \<lparr>req_model = ''gpt-4.1'', req_file = ''b.pdf'', req_input_tokens = 1000000,
                req_output_tokens = 0, req_cached = False, req_info = None\<rparr>];
        s' = snd (log_requests rs (CostMonitor_init Map.empty))
    in log_requests rs (CostMonitor_init Map.empty) = (map Inr [Fin 2, Fin 2], s') \<and>
       heap s' (cost_by_model s') ''gpt-4.1'' = Some (foldl fadd (Fin 0) [Fin 2, Fin 2]) \<and>
       total_cost s' = foldl fadd (Fin 0) [Fin 2, Fin 2] \<and>
       foldl fadd (Fin 0) [Fin 2, Fin 2] = Fin 4 \<and>
       \<bar>4 - sum_list [2, 2 :: rat]\<bar> \<le>
         of_nat (length [2, 2 :: rat]) * (sum_list (map abs [2, 2]) / 2 ^ 52 + 1 / 2 ^ 1074))"
proof -
  let ?rs = "[\<lparr>req_model = ''gpt-4.1'', req_file = ''a.pdf'', req_input_tokens = 1000000,
                req_output_tokens = 0, req_cached = False, req_info = None\<rparr>,
              \<lparr>req_model = ''gpt-4.1'', req_file = ''b.pdf'', req_input_tokens = 1000000,
                req_output_tokens = 0, req_cached = False, req_info = None\<rparr>]"
  let ?s' = "snd (log_requests ?rs (CostMonitor_init Map.empty))"
  have h1: "\<forall>r\<in>set ?rs. req_model r = ''gpt-4.1''" by simp
  have h3: "?rs \<noteq> []" by simp
  have h4: "log_requests ?rs (CostMonitor_init Map.empty) = (map Inr [Fin 2, Fin 2], ?s')"
    unfolding log_requests_two by simp
  have v: "foldl fadd (Fin 0) [Fin 2, Fin 2] = Fin 4" by (simp add: rd_consts)
  note t = cost_by_model_is_running_total [OF h1 h4]
  note t2 = t [THEN conjunct2, THEN conjunct1]
  note t4 = t [THEN conjunct2, THEN conjunct2, THEN conjunct2, THEN conjunct1, THEN mp, OF h3]
  note t5 = t [THEN conjunct2, THEN conjunct2, THEN conjunct2, THEN conjunct2]
  have c: "[Fin 2, Fin 2] = map Fin [2, 2 :: rat]" by simp
  have s: "total_cost ?s' = Fin 4" using t2 unfolding v .
  have len: "length [2, 2 :: rat] \<le> 2 ^ 52" by simp
  note b = t5 [THEN spec, THEN spec, THEN mp, OF conjI [OF c conjI [OF s len]]]
  show ?thesis
    unfolding Let_def
    by (intro conjI) (rule h4, rule t4, rule t2, rule v, rule b)
qed

section \<open>The summary\<close>

lemma log_request_addresses:
  assumes "log_request model_name file_path input_tokens output_tokens is_cached model_info s = (res, s')"
  shows "cost_by_model s' = cost_by_model s" and "cost_by_file s' = cost_by_file s"
  using assms
  by (auto simp: log_request_def Let_def split: sum.splits option.splits)

lemma snd_log_request_gpt41:
  "snd (log_request ''gpt-4.1'' ''a.pdf'' 1000000 0 False None (CostMonitor_init fs)) =
     \<lparr>total_cost = Fin 2, cost_by_model = 0, cost_by_file = 1,
       heap = (\<lambda>_. Map.empty)(0 := [''gpt-4.1'' \<mapsto> Fin 2], 1 := [''a.pdf'' \<mapsto> Fin 2]),
       files = fs,
       audit = [RequestLine ''gpt-4.1'' ''a.pdf'' 1000000 0 (Fin 2)]\<rparr>"
  by (simp add: log_request_gpt41)

text \<open>
  A summary returned before a request is not a snapshot: it holds the two dictionaries of
  the monitor by reference, so the request shows up in it. Here the summary of a new monitor
  has no entry for \<open>gpt-4.1\<close> when it is returned, and the entry 2.0 after one request.
\<close>

theorem get_summary_snapshot_counterexample:
  "summary_value
     (heap (snd (log_request ''gpt-4.1'' ''a.pdf'' 1000000 0 False None (CostMonitor_init Map.empty))))
     (get_summary ''2025-01-01T12:00:00'' (CostMonitor_init Map.empty)) \<noteq>
   summary_value (heap (CostMonitor_init Map.empty))
     (get_summary ''2025-01-01T12:00:00'' (CostMonitor_init Map.empty)) \<and>
   doc_cost_by_model (summary_value (heap (CostMonitor_init Map.empty))
     (get_summary ''2025-01-01T12:00:00'' (CostMonitor_init Map.empty))) ''gpt-4.1'' = None \<and>
   doc_cost_by_model (summary_value
     (heap (snd (log_request ''gpt-4.1'' ''a.pdf'' 1000000 0 False None (CostMonitor_init Map.empty))))
     (get_summary ''2025-01-01T12:00:00'' (CostMonitor_init Map.empty))) ''gpt-4.1'' = Some (Fin 2)"
proof -
  let ?s0 = "CostMonitor_init Map.empty"
  let ?s1 = "snd (log_request ''gpt-4.1'' ''a.pdf'' 1000000 0 False None ?s0)"
  let ?sm = "get_summary ''2025-01-01T12:00:00'' ?s0"
  have a: "doc_cost_by_model (summary_value (heap ?s0) ?sm) ''gpt-4.1'' = None"
    by (simp add: summary_value_def get_summary_def CostMonitor_init_def)
  have b: "doc_cost_by_model (summary_value (heap ?s1) ?sm) ''gpt-4.1'' = Some (Fin 2)"
    unfolding snd_log_request_gpt41
    by (simp add: summary_value_def get_summary_def CostMonitor_init_def)
  have ne: "summary_value (heap ?s1) ?sm \<noteq> summary_value (heap ?s0) ?sm"
  proof
    assume e: "summary_value (heap ?s1) ?sm = summary_value (heap ?s0) ?sm"
    from a b show False unfolding e by simp
  qed
  show ?thesis by (rule conjI [OF ne conjI [OF a b]])
qed

text \<open>
  Claim C8, as the code has it. \<open>get_summary\<close> returns the total, the two dictionaries and
  the clock reading of the call, and changes nothing (it returns no state). Its
  \<open>total_cost\<close> and its timestamp are values and stay as they were; its \<open>cost_by_model\<close>
  and \<open>cost_by_file\<close> are the dictionaries of the monitor themselves, so after a later
  \<open>log_request\<close> the summary returned earlier shows the current contents of both.
\<close>

theorem get_summary_shares_dictionaries:
  "summary_value (heap s) (get_summary now s) =
     \<lparr>doc_total_cost = total_cost s, doc_cost_by_model = heap s (cost_by_model s),
      doc_cost_by_file = heap s (cost_by_file s), doc_timestamp = now\<rparr> \<and>
   (log_request model_name file_path input_tokens output_tokens is_cached model_info s = (res, s')
      \<longrightarrow>
    summary_value (heap s') (get_summary now s) =
      \<lparr>doc_total_cost = total_cost s, doc_cost_by_model = heap s' (cost_by_model s'),
       doc_cost_by_file = heap s' (cost_by_file s'), doc_timestamp = now\<rparr>)"
proof (intro conjI impI)
  show "summary_value (heap s) (get_summary now s) =
     \<lparr>doc_total_cost = total_cost s, doc_cost_by_model = heap s (cost_by_model s),
      doc_cost_by_file = heap s (cost_by_file s), doc_timestamp = now\<rparr>"
    by (simp add: summary_value_def get_summary_def)
next
  assume "log_request model_name file_path input_tokens output_tokens is_cached model_info s = (res, s')"
  then have "cost_by_model s' = cost_by_model s" and "cost_by_file s' = cost_by_file s"
    by (rule log_request_addresses)+
  then show "summary_value (heap s') (get_summary now s) =
      \<lparr>doc_total_cost = total_cost s, doc_cost_by_model = heap s' (cost_by_model s'),
       doc_cost_by_file = heap s' (cost_by_file s'), doc_timestamp = now\<rparr>"
    by (simp add: summary_value_def get_summary_def)
qed

theorem get_summary_shares_dictionaries_witness:
  "log_request ''gpt-4.1'' ''a.pdf'' 1000000 0 False None (CostMonitor_init Map.empty) =
     (Inr (Fin 2),
      snd (log_request ''gpt-4.1'' ''a.pdf'' 1000000 0 False None (CostMonitor_init Map.empty))) \<and>
   summary_value
     (heap (snd (log_request ''gpt-4.1'' ''a.pdf'' 1000000 0 False None (CostMonitor_init Map.empty))))
     (get_summary ''2025-01-01T12:00:00'' (CostMonitor_init Map.empty)) =
     \<lparr>doc_total_cost = Fin 0, doc_cost_by_model = [''gpt-4.1'' \<mapsto> Fin 2],
      doc_cost_by_file = [''a.pdf'' \<mapsto> Fin 2], doc_timestamp = ''2025-01-01T12:00:00''\<rparr>"
proof -
  let ?s0 = "CostMonitor_init Map.empty"
  let ?r = "log_request ''gpt-4.1'' ''a.pdf'' 1000000 0 False None ?s0"
  have h: "?r = (Inr (Fin 2), snd ?r)" by (simp add: log_request_gpt41)
  have v1: "heap (snd ?r) (cost_by_model (snd ?r)) = [''gpt-4.1'' \<mapsto> Fin 2]"
    unfolding snd_log_request_gpt41 by simp
  have v2: "heap (snd ?r) (cost_by_file (snd ?r)) = [''a.pdf'' \<mapsto> Fin 2]"
    unfolding snd_log_request_gpt41 by simp
  have v3: "total_cost ?s0 = Fin 0" by (simp add: CostMonitor_init_def)
  note t = get_summary_shares_dictionaries [where s = ?s0 and now = "''2025-01-01T12:00:00''"
      and model_name = "''gpt-4.1''" and file_path = "''a.pdf''" and input_tokens = 1000000
      and output_tokens = 0 and is_cached = False and model_info = None
      and res = "Inr (Fin 2)" and s' = "snd ?r", THEN conjunct2, THEN mp, OF h]
  show ?thesis using h t unfolding v1 v2 v3 by (rule conjI)
qed

section \<open>Saving the summary\<close>







section \<open>The ledger only grows\<close>







lemma price_ok_cases:
  assumes "price_ok v"
  obtains x where "v = Fin x" and "0 \<le> x"
  using assms by (cases v) auto


















section \<open>The cost of a request\<close>

lemma rounding_chain_step:
  fixes u h x :: rat
  assumes u0: "0 \<le> u" and u4: "u \<le> 1 / 4" and h0: "0 \<le> h"
    and 1: "\<bar>q - E\<bar> \<le> u * \<bar>E\<bar>"
    and 2: "\<bar>i - q\<bar> \<le> u * \<bar>q\<bar> + h"
  shows "\<bar>i - E\<bar> \<le> 9 / 4 * (u * \<bar>E\<bar>) + h"
proof -
  have ux: "0 \<le> u * \<bar>E\<bar>" using u0 by simp
  have a1: "\<bar>q\<bar> \<le> \<bar>E\<bar> + u * \<bar>E\<bar>" using 1 by linarith
  have "u * \<bar>q\<bar> \<le> u * (\<bar>E\<bar> + u * \<bar>E\<bar>)" using a1 u0 by (rule mult_left_mono)
  then have m1: "u * \<bar>q\<bar> \<le> u * \<bar>E\<bar> + u * (u * \<bar>E\<bar>)" by (simp add: distrib_left)
  have k1: "u * (u * \<bar>E\<bar>) \<le> 1 / 4 * (u * \<bar>E\<bar>)" using u4 ux by (rule mult_right_mono)
  have "\<bar>i - E\<bar> \<le> \<bar>i - q\<bar> + \<bar>q - E\<bar>" by linarith
  then show ?thesis using 1 2 m1 k1 by linarith
qed

lemma rounding_chain_sum:
  fixes u h :: rat
  assumes u0: "0 \<le> u" and u4: "u \<le> 1 / 4" and h0: "0 \<le> h"
    and di: "\<bar>i - E\<bar> \<le> 9 / 4 * (u * \<bar>E\<bar>) + h"
    and do': "\<bar>j - F\<bar> \<le> 9 / 4 * (u * \<bar>F\<bar>) + h"
    and 5: "\<bar>c - (i + j)\<bar> \<le> u * \<bar>i + j\<bar> + h"
  shows "\<bar>c - (E + F)\<bar> \<le> 4 * (u * \<bar>E\<bar>) + 4 * (u * \<bar>F\<bar>) + 4 * h"
proof -
  define x where "x = \<bar>E\<bar>"
  define y where "y = \<bar>F\<bar>"
  define a where "a = \<bar>i - E\<bar>"
  define b where "b = \<bar>j - F\<bar>"
  have x0: "0 \<le> u * x" and y0: "0 \<le> u * y" using u0 by (simp_all add: x_def y_def)
  have a3: "a \<le> 9 / 4 * (u * x) + h" using di by (simp add: a_def x_def)
  have b3: "b \<le> 9 / 4 * (u * y) + h" using do' by (simp add: b_def y_def)
  have s2: "\<bar>i + j\<bar> \<le> x + y + (a + b)" unfolding x_def y_def a_def b_def by linarith
  have "u * \<bar>i + j\<bar> \<le> u * (x + y + (a + b))" using s2 u0 by (rule mult_left_mono)
  then have m2: "u * \<bar>i + j\<bar> \<le> u * x + u * y + (u * a + u * b)" by (simp add: distrib_left)
  have "u * a \<le> u * (9 / 4 * (u * x) + h)" using a3 u0 by (rule mult_left_mono)
  then have ua: "u * a \<le> 9 / 4 * (u * (u * x)) + u * h" by (simp add: distrib_left)
  have "u * b \<le> u * (9 / 4 * (u * y) + h)" using b3 u0 by (rule mult_left_mono)
  then have ub: "u * b \<le> 9 / 4 * (u * (u * y)) + u * h" by (simp add: distrib_left)
  have kx: "u * (u * x) \<le> 1 / 4 * (u * x)" using u4 x0 by (rule mult_right_mono)
  have ky: "u * (u * y) \<le> 1 / 4 * (u * y)" using u4 y0 by (rule mult_right_mono)
  have kh: "u * h \<le> 1 / 4 * h" using u4 h0 by (rule mult_right_mono)
  have s4: "\<bar>c - (E + F)\<bar> \<le> \<bar>c - (i + j)\<bar> + (a + b)" unfolding a_def b_def by linarith
  have lin: "T \<le> 4 * PX + 4 * PY + 4 * H"
    if "T \<le> D + (A + B)" "D \<le> J + H" "J \<le> PX + PY + (UA + UB)"
      "UA \<le> 9 / 4 * PPX + UH" "UB \<le> 9 / 4 * PPY + UH"
      "PPX \<le> 1 / 4 * PX" "PPY \<le> 1 / 4 * PY" "UH \<le> 1 / 4 * H"
      "A \<le> 9 / 4 * PX + H" "B \<le> 9 / 4 * PY + H" "0 \<le> PX" "0 \<le> PY" "0 \<le> H"
    for T D A B J H PX PY UA UB PPX PPY UH :: rat
    using that by linarith
  have "\<bar>c - (E + F)\<bar> \<le> 4 * (u * x) + 4 * (u * y) + 4 * h"
    using s4 5 m2 ua ub kx ky kh a3 b3 x0 y0 h0 by (rule lin)
  then show ?thesis by (simp add: x_def y_def)
qed

lemma round_double_error_normal:
  assumes "round_double x = Fin r" and "1 / 2 ^ 1022 \<le> \<bar>x\<bar>"
  shows "\<bar>r - x\<bar> \<le> 1 / 2 ^ 53 * \<bar>x\<bar>"
  using round_unbounded_rel_error_normal [OF assms(2)] round_double_Fin(1) [OF assms(1)] by simp

lemma int_truediv_Inr:
  assumes "int_truediv a 1000000 = Inr q"
  obtains x where "q = Fin x" and "round_double (of_int a / 1000000) = Fin x"
proof (cases "round_double (of_int a / 1000000)")
  case (Fin x)
  then have "q = Fin x" using assms by (simp add: int_truediv_def)
  then show ?thesis using Fin by (rule that)
next
  case PInf
  then show ?thesis using assms by (simp add: int_truediv_def)
next
  case NInf
  then show ?thesis using assms by (simp add: int_truediv_def)
next
  case NaN
  then show ?thesis using assms by (simp add: int_truediv_def)
qed

lemma int_truediv_error:
  assumes "round_double (of_int a / 1000000) = Fin x"
  shows "\<bar>x - of_int a / 1000000\<bar> \<le> 1 / 2 ^ 53 * \<bar>of_int a / 1000000\<bar>"
proof (cases "a = 0")
  case True
  then show ?thesis using assms by (simp add: round_double_0)
next
  case False
  then have "1 \<le> \<bar>a\<bar>" by simp
  then have "(1::rat) \<le> \<bar>of_int a\<bar>" by (metis of_int_1_le_iff of_int_abs)
  then have "(1::rat) / 1000000 \<le> \<bar>of_int a / 1000000\<bar>" by simp
  moreover have "(1::rat) / 2 ^ 1022 \<le> 1 / 1000000" by simp
  ultimately have "1 / 2 ^ 1022 \<le> \<bar>(of_int a :: rat) / 1000000\<bar>" by (rule order_trans [rotated])
  with assms show ?thesis by (rule round_double_error_normal)
qed

lemma fmul_Fin_Fin: "fmul (Fin x) (Fin y) = round_double (x * y)"
  by simp

lemma calculate_cost_Fin:
  assumes "calculate_cost p a b c = Inr (Fin cost)"
    and "(if c then cached_input_price p else input_price p) = Fin P"
    and "output_price p = Fin Q"
  obtains qi qo ic oc where "round_double (of_int a / 1000000) = Fin qi"
    and "round_double (of_int b / 1000000) = Fin qo"
    and "round_double (qi * P) = Fin ic" and "round_double (qo * Q) = Fin oc"
    and "round_double (ic + oc) = Fin cost"
proof -
  from assms(1) obtain vi vo where vi: "int_truediv a 1000000 = Inr vi"
    and vo: "int_truediv b 1000000 = Inr vo"
    and cost: "fadd (fmul vi (if c then cached_input_price p else input_price p))
        (fmul vo (output_price p)) = Fin cost"
    by (auto simp: calculate_cost_def Let_def split: sum.splits)
  from vi obtain qi where qi: "vi = Fin qi" "round_double (of_int a / 1000000) = Fin qi"
    by (rule int_truediv_Inr)
  from vo obtain qo where qo: "vo = Fin qo" "round_double (of_int b / 1000000) = Fin qo"
    by (rule int_truediv_Inr)
  from cost obtain ic oc where "fmul vi (if c then cached_input_price p else input_price p) = Fin ic"
    and "fmul vo (output_price p) = Fin oc" and s: "round_double (ic + oc) = Fin cost"
    by (rule fadd_Fin)
  then have ic: "round_double (qi * P) = Fin ic" and oc: "round_double (qo * Q) = Fin oc"
    using assms(2,3) qi(1) qo(1) by simp_all
  show ?thesis using qi(2) qo(2) ic oc s by (rule that)
qed

lemma product_error:
  assumes "round_double (of_int a / 1000000) = Fin q" and "round_double (q * P) = Fin i"
  shows "\<bar>i - of_int a / 1000000 * P\<bar> \<le> 9 / 4 * (1 / 2 ^ 53 * \<bar>of_int a / 1000000 * P\<bar>) + 1 / 2 ^ 1075"
proof (rule rounding_chain_step [where q = "q * P"])
  show "(0::rat) \<le> 1 / 2 ^ 53" and "(1::rat) / 2 ^ 53 \<le> 1 / 4" and "(0::rat) \<le> 1 / 2 ^ 1075"
    by simp_all
  have "q * P - of_int a / 1000000 * P = (q - of_int a / 1000000) * P"
    by (simp only: left_diff_distrib)
  then have "\<bar>q * P - of_int a / 1000000 * P\<bar> = \<bar>q - of_int a / 1000000\<bar> * \<bar>P\<bar>"
    by (simp only: abs_mult)
  also have "\<dots> \<le> 1 / 2 ^ 53 * \<bar>of_int a / 1000000\<bar> * \<bar>P\<bar>"
    using int_truediv_error [OF assms(1)] by (rule mult_right_mono) simp
  also have "\<dots> = 1 / 2 ^ 53 * \<bar>of_int a / 1000000 * P\<bar>" by (simp only: abs_mult mult.assoc)
  finally show "\<bar>q * P - of_int a / 1000000 * P\<bar> \<le> 1 / 2 ^ 53 * \<bar>of_int a / 1000000 * P\<bar>" .
  show "\<bar>i - q * P\<bar> \<le> 1 / 2 ^ 53 * \<bar>q * P\<bar> + 1 / 2 ^ 1075"
    using assms(2) by (rule round_double_error)
qed

lemma calculate_cost_rounding:
  assumes "calculate_cost p a b c = Inr (Fin cost)"
    and "(if c then cached_input_price p else input_price p) = Fin P"
    and "output_price p = Fin Q"
  shows "\<bar>cost - (of_int a / 1000000 * P + of_int b / 1000000 * Q)\<bar> \<le>
           (\<bar>of_int a / 1000000 * P\<bar> + \<bar>of_int b / 1000000 * Q\<bar>) / 2 ^ 51 + 1 / 2 ^ 1073"
proof -
  from assms obtain qi qo ic oc where qi: "round_double (of_int a / 1000000) = Fin qi"
    and qo: "round_double (of_int b / 1000000) = Fin qo"
    and ic: "round_double (qi * P) = Fin ic" and oc: "round_double (qo * Q) = Fin oc"
    and s: "round_double (ic + oc) = Fin cost"
    by (rule calculate_cost_Fin)
  have "\<bar>cost - (of_int a / 1000000 * P + of_int b / 1000000 * Q)\<bar> \<le>
      4 * (1 / 2 ^ 53 * \<bar>of_int a / 1000000 * P\<bar>) + 4 * (1 / 2 ^ 53 * \<bar>of_int b / 1000000 * Q\<bar>) +
      4 * (1 / 2 ^ 1075)"
  proof (rule rounding_chain_sum [where i = ic and j = oc])
    show "(0::rat) \<le> 1 / 2 ^ 53" and "(1::rat) / 2 ^ 53 \<le> 1 / 4" and "(0::rat) \<le> 1 / 2 ^ 1075"
      by simp_all
    show "\<bar>ic - of_int a / 1000000 * P\<bar> \<le>
        9 / 4 * (1 / 2 ^ 53 * \<bar>of_int a / 1000000 * P\<bar>) + 1 / 2 ^ 1075"
      using qi ic by (rule product_error)
    show "\<bar>oc - of_int b / 1000000 * Q\<bar> \<le>
        9 / 4 * (1 / 2 ^ 53 * \<bar>of_int b / 1000000 * Q\<bar>) + 1 / 2 ^ 1075"
      using qo oc by (rule product_error)
    show "\<bar>cost - (ic + oc)\<bar> \<le> 1 / 2 ^ 53 * \<bar>ic + oc\<bar> + 1 / 2 ^ 1075"
      using s by (rule round_double_error)
  qed
  also have "\<dots> = (\<bar>of_int a / 1000000 * P\<bar> + \<bar>of_int b / 1000000 * Q\<bar>) / 2 ^ 51 + 1 / 2 ^ 1073"
    by (simp add: field_simps)
  finally show ?thesis .
qed


lemma int_truediv_total:
  assumes "0 \<le> a" and "a \<le> 10 ^ 300"
  shows "\<exists>q. int_truediv a 1000000 = Inr q"
proof -
  let ?x = "of_int a / 1000000 :: rat"
  have x0: "0 \<le> ?x" using assms(1) by simp
  have "(of_int a :: rat) \<le> of_int (10 ^ 300)" using assms(2) by (simp only: of_int_le_iff)
  then have "?x \<le> 10 ^ 300 / 1000000" by (simp add: divide_right_mono)
  also have "\<dots> \<le> 2 ^ 1000" by simp
  finally have x1: "?x \<le> 2 ^ 1000" .
  have d: "round_double (2 ^ 1000) = Fin (2 ^ 1000)"
    by (subst round_double_eval [where e = 1000]) (simp_all add: rd_eval)
  have "fle (Fin 0) (round_double ?x)" using x0 by (rule round_double_nonneg)
  moreover have "fle (round_double ?x) (round_double (2 ^ 1000))"
    using x0 x1 by (rule round_double_mono)
  ultimately obtain r where "round_double ?x = Fin r"
    unfolding d by (cases "round_double ?x") simp_all
  then show ?thesis by (simp add: int_truediv_def)
qed


text \<open>
  The first example of the specification. For the record with prices 0.40, 0.10 and 1.60,
  1,000,000 input tokens and 500,000 output tokens, not cached, \<open>calculate_cost\<close> returns
  0.4 + 0.8 in double arithmetic, which is 1.2000000000000002 and not the float 1.20; the
  formula itself gives 1.20.
\<close>

theorem calculate_cost_example_counterexample:
  "calculate_cost
     \<lparr>input_price = float_lit (40 / 100), cached_input_price = float_lit (10 / 100),
       output_price = float_lit (160 / 100), description = ''example''\<rparr>
     1000000 500000 False = Inr (Fin (1351079888211149 / 1125899906842624)) \<and>
   float_lit (120 / 100) = Fin (5404319552844595 / 4503599627370496) \<and>
   exact_cost (40 / 100) (10 / 100) (160 / 100) 1000000 500000 False = 120 / 100 \<and>
   calculate_cost
     \<lparr>input_price = float_lit (40 / 100), cached_input_price = float_lit (10 / 100),
       output_price = float_lit (160 / 100), description = ''example''\<rparr>
     1000000 500000 False \<noteq> Inr (float_lit (120 / 100)) \<and>
   calculate_cost
     \<lparr>input_price = float_lit (40 / 100), cached_input_price = float_lit (10 / 100),
       output_price = float_lit (160 / 100), description = ''example''\<rparr>
     1000000 500000 False \<noteq>
     Inr (Fin (exact_cost (40 / 100) (10 / 100) (160 / 100) 1000000 500000 False))"
proof -
  have a: "calculate_cost
     \<lparr>input_price = float_lit (40 / 100), cached_input_price = float_lit (10 / 100),
       output_price = float_lit (160 / 100), description = ''example''\<rparr>
     1000000 500000 False = Inr (Fin (1351079888211149 / 1125899906842624))"
    by (simp add: cc_eval)
  have b: "float_lit (120 / 100) = Fin (5404319552844595 / 4503599627370496)"
    by (simp add: float_lit_def rd_consts)
  have c: "exact_cost (40 / 100) (10 / 100) (160 / 100) 1000000 500000 False = 120 / 100"
    by (simp add: exact_cost_def)
  show ?thesis unfolding a b c by simp
qed

text \<open>
  Claim C1, as the code has it. \<open>calculate_cost\<close> is a function of its arguments only. It
  evaluates the formula in double arithmetic, rounding each of the two quotients, the two
  products and the sum. When the three prices are finite and a finite cost is returned, the
  cost differs from the exact value of the formula by at most the sum of the magnitudes of
  its two terms divided by \<open>2 ^ 51\<close>, plus \<open>1 / 2 ^ 1073\<close>. For token counts from 0 to
  \<open>10 ^ 300\<close> no exception is raised. For the record 0.40, 0.10, 1.60 the first example
  gives 1.2000000000000002, and the second, cached with 2,000,000 input tokens and no
  output tokens, gives the float 0.20.
\<close>

theorem calculate_cost_formula:
  "(calculate_cost p a b c = Inr (Fin cost) \<and> input_price p = Fin PI \<and>
    cached_input_price p = Fin PC \<and> output_price p = Fin PO \<longrightarrow>
      \<bar>cost - exact_cost PI PC PO a b c\<bar> \<le>
        (\<bar>of_int a / 1000000 * (if c then PC else PI)\<bar> + \<bar>of_int b / 1000000 * PO\<bar>) / 2 ^ 51
          + 1 / 2 ^ 1073) \<and>
   (0 \<le> a \<and> a \<le> 10 ^ 300 \<and> 0 \<le> b \<and> b \<le> 10 ^ 300 \<longrightarrow>
      (\<exists>cost. calculate_cost p a b c = Inr cost)) \<and>
   calculate_cost
     \<lparr>input_price = float_lit (40 / 100), cached_input_price = float_lit (10 / 100),
       output_price = float_lit (160 / 100), description = d\<rparr>
     1000000 500000 False = Inr (Fin (1351079888211149 / 1125899906842624)) \<and>
   calculate_cost
     \<lparr>input_price = float_lit (40 / 100), cached_input_price = float_lit (10 / 100),
       output_price = float_lit (160 / 100), description = d\<rparr>
     2000000 0 True = Inr (float_lit (20 / 100))"
proof (intro conjI impI)
  assume h: "calculate_cost p a b c = Inr (Fin cost) \<and> input_price p = Fin PI \<and>
    cached_input_price p = Fin PC \<and> output_price p = Fin PO"
  then have 1: "calculate_cost p a b c = Inr (Fin cost)"
    and 2: "(if c then cached_input_price p else input_price p) = Fin (if c then PC else PI)"
    and 3: "output_price p = Fin PO" by simp_all
  show "\<bar>cost - exact_cost PI PC PO a b c\<bar> \<le>
        (\<bar>of_int a / 1000000 * (if c then PC else PI)\<bar> + \<bar>of_int b / 1000000 * PO\<bar>) / 2 ^ 51
          + 1 / 2 ^ 1073"
    using calculate_cost_rounding [OF 1 2 3] by (simp only: exact_cost_def)
next
  assume h: "0 \<le> a \<and> a \<le> 10 ^ 300 \<and> 0 \<le> b \<and> b \<le> 10 ^ 300"
  then have a: "0 \<le> a" "a \<le> 10 ^ 300" and b: "0 \<le> b" "b \<le> 10 ^ 300" by simp_all
  obtain qa where qa: "int_truediv a 1000000 = Inr qa" using int_truediv_total [OF a] by blast
  obtain qb where qb: "int_truediv b 1000000 = Inr qb" using int_truediv_total [OF b] by blast
  show "\<exists>cost. calculate_cost p a b c = Inr cost"
    by (simp add: calculate_cost_def qa qb Let_def)
next
  show "calculate_cost
     \<lparr>input_price = float_lit (40 / 100), cached_input_price = float_lit (10 / 100),
       output_price = float_lit (160 / 100), description = d\<rparr>
     1000000 500000 False = Inr (Fin (1351079888211149 / 1125899906842624))"
    by (simp add: cc_eval)
next
  show "calculate_cost
     \<lparr>input_price = float_lit (40 / 100), cached_input_price = float_lit (10 / 100),
       output_price = float_lit (160 / 100), description = d\<rparr>
     2000000 0 True = Inr (float_lit (20 / 100))"
    by (simp add: cc_eval)
qed

theorem calculate_cost_formula_witness:
  "calculate_cost
     \<lparr>input_price = Fin 2, cached_input_price = Fin (1 / 2), output_price = Fin 8,
       description = ''Smartest model for complex tasks''\<rparr> 1000000 0 False = Inr (Fin 2) \<and>
   \<bar>2 - exact_cost 2 (1 / 2) 8 1000000 0 False\<bar> \<le>
     (\<bar>of_int 1000000 / 1000000 * (if False then 1 / 2 else 2)\<bar> +
      \<bar>of_int 0 / 1000000 * 8\<bar>) / 2 ^ 51 + 1 / 2 ^ 1073"
proof -
  let ?p = "\<lparr>input_price = Fin 2, cached_input_price = Fin (1 / 2), output_price = Fin 8,
       description = ''Smartest model for complex tasks''\<rparr>"
  have c: "calculate_cost ?p 1000000 0 False = Inr (Fin 2)" by (rule calculate_cost_gpt41)
  have h: "calculate_cost ?p 1000000 0 False = Inr (Fin 2) \<and> input_price ?p = Fin 2 \<and>
    cached_input_price ?p = Fin (1 / 2) \<and> output_price ?p = Fin 8"
    using c by simp
  note t = calculate_cost_formula [where p = ?p and a = 1000000 and b = 0 and c = False
      and cost = 2 and PI = 2 and PC = "1 / 2" and PO = 8, THEN conjunct1, THEN mp, OF h]
  show ?thesis using c t by (rule conjI)
qed

section \<open>Additivity in the input tokens\<close>

lemma get_model_info_mini:
  "get_model_info ''gpt-4.1-mini'' =
     Inr \<lparr>input_price = Fin (3602879701896397 / 9007199254740992),
          cached_input_price = Fin (3602879701896397 / 36028797018963968),
          output_price = Fin (3602879701896397 / 2251799813685248),
          description = ''Affordable model balancing speed and intelligence''\<rparr>"
  by (simp add: get_model_info_def MODEL_PRICING_def float_lit_def rd_consts)

lemma additive_bound:
  fixes x y z w E Ea Eb H :: rat
  assumes x: "\<bar>x - E\<bar> \<le> E / 2 ^ 51 + H"
    and y: "\<bar>y - Ea\<bar> \<le> Ea / 2 ^ 51 + H"
    and z: "\<bar>z - Eb\<bar> \<le> Eb / 2 ^ 51 + H"
    and w: "\<bar>w - (y + z)\<bar> \<le> \<bar>y + z\<bar> / 2 ^ 53 + H / 4"
    and E: "E = Ea + Eb" and nn: "0 \<le> Ea" "0 \<le> Eb" and H: "0 \<le> H"
  shows "\<bar>x - w\<bar> \<le> E / 2 ^ 49 + 4 * H"
proof -
  define D where "D = \<bar>y + z\<bar>"
  define Fa where "Fa = Ea / 2 ^ 51"
  define Fb where "Fb = Eb / 2 ^ 51"
  define G where "G = D / 2 ^ 53"
  have Fa: "0 \<le> Fa" and Fb: "0 \<le> Fb" using nn by (simp_all add: Fa_def Fb_def)
  have EF: "E / 2 ^ 51 = Fa + Fb" by (simp add: E Fa_def Fb_def add_divide_distrib)
  have x': "\<bar>x - E\<bar> \<le> Fa + Fb + H" using x unfolding EF .
  have y': "\<bar>y - Ea\<bar> \<le> Fa + H" using y unfolding Fa_def .
  have z': "\<bar>z - Eb\<bar> \<le> Fb + H" using z unfolding Fb_def .
  have d: "D \<le> Ea + Eb + (Fa + Fb) + 2 * H" using y' z' nn unfolding D_def by linarith
  have "G \<le> (Ea + Eb + (Fa + Fb) + 2 * H) / 2 ^ 53"
    unfolding G_def using d by (rule divide_right_mono) simp
  also have "\<dots> = Ea / 2 ^ 53 + Eb / 2 ^ 53 + (Fa / 2 ^ 53 + Fb / 2 ^ 53) + 2 * H / 2 ^ 53"
    by (simp only: add_divide_distrib)
  finally have g0: "G \<le> Ea / 2 ^ 53 + Eb / 2 ^ 53 + (Fa / 2 ^ 53 + Fb / 2 ^ 53) + 2 * H / 2 ^ 53" .
  have e1: "Ea / 2 ^ 53 = Fa / 4" and e2: "Eb / 2 ^ 53 = Fb / 4" by (simp_all add: Fa_def Fb_def)
  have f1: "Fa / 2 ^ 53 \<le> Fa / 4" by (rule divide_left_mono) (simp_all add: Fa)
  have f2: "Fb / 2 ^ 53 \<le> Fb / 4" by (rule divide_left_mono) (simp_all add: Fb)
  have h1: "2 * H / 2 ^ 53 \<le> H / 4" using H by simp
  have g: "G \<le> Fa / 4 + Fb / 4 + (Fa / 4 + Fb / 4) + H / 4"
    using g0 f1 f2 h1 unfolding e1 e2 by linarith
  have w': "\<bar>w - (y + z)\<bar> \<le> G + H / 4" using w by (simp only: D_def G_def)
  have t: "\<bar>x - w\<bar> \<le> \<bar>x - E\<bar> + (\<bar>y - Ea\<bar> + \<bar>z - Eb\<bar>) + \<bar>w - (y + z)\<bar>"
    unfolding E by linarith
  have lin: "T \<le> 4 * A + 4 * B + 4 * H"
    if "T \<le> X + (Y + Z) + W" "X \<le> A + B + H" "Y \<le> A + H" "Z \<le> B + H" "W \<le> G + H / 4"
      "G \<le> A / 4 + B / 4 + (A / 4 + B / 4) + H / 4" "0 \<le> A" "0 \<le> B" "0 \<le> H"
    for T X Y Z W G A B H :: rat
    using that by linarith
  have r: "\<bar>x - w\<bar> \<le> 4 * Fa + 4 * Fb + 4 * H"
    using t x' y' z' w' g Fa Fb H by (rule lin)
  have "E / 2 ^ 49 = 4 * (E / 2 ^ 51)" by simp
  also have "\<dots> = 4 * Fa + 4 * Fb" unfolding EF by (simp only: distrib_left)
  finally have e49: "E / 2 ^ 49 = 4 * Fa + 4 * Fb" .
  show ?thesis using r unfolding e49 .
qed

lemma calculate_cost_input_only:
  assumes "pricing_ok p" and "input_price p = Fin P"
    and "calculate_cost p a 0 False = Inr (Fin x)"
  shows "\<bar>x - of_int a / 1000000 * P\<bar> \<le> \<bar>of_int a / 1000000 * P\<bar> / 2 ^ 51 + 1 / 2 ^ 1073"
proof -
  from assms(1) have "price_ok (output_price p)" by (simp add: pricing_ok_def)
  then obtain Q where Q: "output_price p = Fin Q" by (rule price_ok_cases)
  have 2: "(if False then cached_input_price p else input_price p) = Fin P" using assms(2) by simp
  show ?thesis using calculate_cost_rounding [OF assms(3) 2 Q] by simp
qed

text \<open>
  \<open>calculate_cost\<close> is not additive in the input tokens. For \<open>gpt-4.1-mini\<close> the cost of 3
  input tokens is 1.2000000000000002e-06, while the costs of 1 and of 2 input tokens, 4e-07
  and 8e-07, add up to 1.2e-06.
\<close>

theorem calculate_cost_additive_counterexample:
  "(let p = \<lparr>input_price = Fin (3602879701896397 / 9007199254740992),
             cached_input_price = Fin (3602879701896397 / 36028797018963968),
             output_price = Fin (3602879701896397 / 2251799813685248),
             description = ''Affordable model balancing speed and intelligence''\<rparr>
    in get_model_info ''gpt-4.1-mini'' = Inr p \<and>
       calculate_cost p (1 + 2) 0 False =
         Inr (Fin (5666839779443575 / 4722366482869645213696)) \<and>
       calculate_cost p 1 0 False = Inr (Fin (944473296573929 / 2361183241434822606848)) \<and>
       calculate_cost p 2 0 False = Inr (Fin (944473296573929 / 1180591620717411303424)) \<and>
       fadd (Fin (944473296573929 / 2361183241434822606848))
            (Fin (944473296573929 / 1180591620717411303424)) =
         Fin (2833419889721787 / 2361183241434822606848) \<and>
       Fin (5666839779443575 / 4722366482869645213696) \<noteq>
         Fin (2833419889721787 / 2361183241434822606848))"
  unfolding Let_def
proof (intro conjI)
  show "get_model_info ''gpt-4.1-mini'' =
     Inr \<lparr>input_price = Fin (3602879701896397 / 9007199254740992),
          cached_input_price = Fin (3602879701896397 / 36028797018963968),
          output_price = Fin (3602879701896397 / 2251799813685248),
          description = ''Affordable model balancing speed and intelligence''\<rparr>"
    by (rule get_model_info_mini)
qed (simp_all add: calculate_cost_def int_truediv_def rd_consts)

text \<open>
  Claim C4, as the code has it. The formula is additive in the input tokens in exact
  arithmetic. For the price record of a known model and non-negative token counts \<open>a\<close> and
  \<open>b\<close>, the cost \<open>calculate_cost\<close> returns for \<open>a + b\<close> input tokens and the float sum of
  the costs it returns for \<open>a\<close> and for \<open>b\<close>, when they are finite, differ by at most the
  exact cost of \<open>a + b\<close> input tokens divided by \<open>2 ^ 49\<close>, plus \<open>1 / 2 ^ 1071\<close>.
\<close>

theorem calculate_cost_additive_up_to_rounding:
  "exact_cost PI PC PO (a + b) 0 False =
     exact_cost PI PC PO a 0 False + exact_cost PI PC PO b 0 False \<and>
   (get_model_info model_name = Inr p \<and> input_price p = Fin P \<and> 0 \<le> a \<and> 0 \<le> b \<and>
    calculate_cost p (a + b) 0 False = Inr (Fin x) \<and>
    calculate_cost p a 0 False = Inr (Fin y) \<and>
    calculate_cost p b 0 False = Inr (Fin z) \<and>
    fadd (Fin y) (Fin z) = Fin w \<longrightarrow>
      \<bar>x - w\<bar> \<le> exact_cost P PC PO (a + b) 0 False / 2 ^ 49 + 1 / 2 ^ 1071)"
proof (intro conjI impI)
  show "exact_cost PI PC PO (a + b) 0 False =
     exact_cost PI PC PO a 0 False + exact_cost PI PC PO b 0 False"
    by (simp add: exact_cost_def algebra_simps add_divide_distrib)
next
  assume h: "get_model_info model_name = Inr p \<and> input_price p = Fin P \<and> 0 \<le> a \<and> 0 \<le> b \<and>
    calculate_cost p (a + b) 0 False = Inr (Fin x) \<and>
    calculate_cost p a 0 False = Inr (Fin y) \<and>
    calculate_cost p b 0 False = Inr (Fin z) \<and>
    fadd (Fin y) (Fin z) = Fin w"
  then have g: "get_model_info model_name = Inr p" and P: "input_price p = Fin P"
    and a: "0 \<le> a" and b: "0 \<le> b"
    and cx: "calculate_cost p (a + b) 0 False = Inr (Fin x)"
    and cy: "calculate_cost p a 0 False = Inr (Fin y)"
    and cz: "calculate_cost p b 0 False = Inr (Fin z)"
    and cw: "fadd (Fin y) (Fin z) = Fin w"
    by blast+
  have ok: "pricing_ok p" using g by (rule registry_pricing_ok)
  then have "price_ok (input_price p)" by (simp add: pricing_ok_def)
  then have P0: "0 \<le> P" using P by simp
  define Ea where "Ea = of_int a / 1000000 * P"
  define Eb where "Eb = of_int b / 1000000 * P"
  define E where "E = of_int (a + b) / 1000000 * P"
  have Ea: "0 \<le> Ea" using a P0 by (simp add: Ea_def)
  have Eb: "0 \<le> Eb" using b P0 by (simp add: Eb_def)
  have E: "E = Ea + Eb" by (simp add: E_def Ea_def Eb_def algebra_simps add_divide_distrib)
  have E0: "0 \<le> E" using Ea Eb E by simp
  have bx: "\<bar>x - E\<bar> \<le> E / 2 ^ 51 + 1 / 2 ^ 1073"
    using calculate_cost_input_only [OF ok P cx] E0 by (simp only: E_def abs_of_nonneg)
  have by': "\<bar>y - Ea\<bar> \<le> Ea / 2 ^ 51 + 1 / 2 ^ 1073"
    using calculate_cost_input_only [OF ok P cy] Ea by (simp only: Ea_def abs_of_nonneg)
  have bz: "\<bar>z - Eb\<bar> \<le> Eb / 2 ^ 51 + 1 / 2 ^ 1073"
    using calculate_cost_input_only [OF ok P cz] Eb by (simp only: Eb_def abs_of_nonneg)
  from cw have "round_double (y + z) = Fin w" by simp
  then have "\<bar>w - (y + z)\<bar> \<le> 1 / 2 ^ 53 * \<bar>y + z\<bar> + 1 / 2 ^ 1075" by (rule round_double_error)
  then have bw: "\<bar>w - (y + z)\<bar> \<le> \<bar>y + z\<bar> / 2 ^ 53 + 1 / 2 ^ 1073 / 4" by simp
  have "\<bar>x - w\<bar> \<le> E / 2 ^ 49 + 4 * (1 / 2 ^ 1073)"
    using bx by' bz bw E Ea Eb by (rule additive_bound) simp
  moreover have "exact_cost P PC PO (a + b) 0 False = E" by (simp add: exact_cost_def E_def)
  ultimately show "\<bar>x - w\<bar> \<le> exact_cost P PC PO (a + b) 0 False / 2 ^ 49 + 1 / 2 ^ 1071"
    by simp
qed

theorem calculate_cost_additive_up_to_rounding_witness:
  "(let p = \<lparr>input_price = Fin (3602879701896397 / 9007199254740992),
             cached_input_price = Fin (3602879701896397 / 36028797018963968),
             output_price = Fin (3602879701896397 / 2251799813685248),
             description = ''Affordable model balancing speed and intelligence''\<rparr>
    in get_model_info ''gpt-4.1-mini'' = Inr p \<and>
       calculate_cost p (1 + 2) 0 False =
         Inr (Fin (5666839779443575 / 4722366482869645213696)) \<and>
       \<bar>5666839779443575 / 4722366482869645213696 -
         2833419889721787 / 2361183241434822606848\<bar> \<le>
         exact_cost (3602879701896397 / 9007199254740992) 0 0 (1 + 2) 0 False / 2 ^ 49 +
           1 / 2 ^ 1071)"
proof -
  let ?p = "\<lparr>input_price = Fin (3602879701896397 / 9007199254740992),
             cached_input_price = Fin (3602879701896397 / 36028797018963968),
             output_price = Fin (3602879701896397 / 2251799813685248),
             description = ''Affordable model balancing speed and intelligence''\<rparr>"
  have g: "get_model_info ''gpt-4.1-mini'' = Inr ?p" by (rule get_model_info_mini)
  have P: "input_price ?p = Fin (3602879701896397 / 9007199254740992)" by simp
  have cx: "calculate_cost ?p (1 + 2) 0 False =
      Inr (Fin (5666839779443575 / 4722366482869645213696))"
    by (simp add: calculate_cost_def int_truediv_def rd_consts)
  have cy: "calculate_cost ?p 1 0 False = Inr (Fin (944473296573929 / 2361183241434822606848))"
    by (simp add: calculate_cost_def int_truediv_def rd_consts)
  have cz: "calculate_cost ?p 2 0 False = Inr (Fin (944473296573929 / 1180591620717411303424))"
    by (simp add: calculate_cost_def int_truediv_def rd_consts)
  have cw: "fadd (Fin (944473296573929 / 2361183241434822606848))
            (Fin (944473296573929 / 1180591620717411303424)) =
         Fin (2833419889721787 / 2361183241434822606848)"
    by (simp add: rd_consts)
  have a: "(0::int) \<le> 1" and b: "(0::int) \<le> 2" by simp_all
  note t = calculate_cost_additive_up_to_rounding [where PC = 0 and PO = 0,
      THEN conjunct2, THEN mp,
      OF conjI [OF g conjI [OF P conjI [OF a conjI [OF b conjI [OF cx conjI [OF cy
        conjI [OF cz cw]]]]]]]]
  show ?thesis unfolding Let_def using g cx t by (intro conjI)
qed

end
